theory Spec2Isabelle
  imports Main
begin

section \<open>Domain entities (internal/domain)\<close>

text \<open>
  An order lives on the Go heap and is shared by reference (\<open>*domain.Order\<close>) between the
  queue and the in-memory repository, so orders are kept in an explicit store and referred
  to by address.  A non-nil Go pointer always refers to a live object, hence the store is a
  total function on addresses.  A nullable pointer argument or result is an \<open>addr option\<close>
  (\<open>None\<close> is \<open>nil\<close>).

  The timestamp fields (\<open>CreatedAt\<close>, \<open>ModifiedAt\<close>, \<open>DeletedAt\<close>) and \<open>Foods\<close> of an order
  are left out: no operation modelled here reads them.  A user's \<open>ID\<close> field is called
  \<open>uID\<close>, the name \<open>ID\<close> being taken by the order's field.
\<close>

type_synonym addr = nat

type_synonym RoleType = string

type_synonym OrderStatus = string

definition RoleRegularCustomer :: RoleType where
  "RoleRegularCustomer = ''Regular Customer''"

definition RoleVIPCustomer :: RoleType where
  "RoleVIPCustomer = ''VIP Customer''"

definition RoleCook :: RoleType where
  "RoleCook = ''Cook''"

definition OrderStatusPending :: OrderStatus where
  "OrderStatusPending = ''PENDING''"

definition OrderStatusServing :: OrderStatus where
  "OrderStatusServing = ''SERVING''"

definition OrderStatusComplete :: OrderStatus where
  "OrderStatusComplete = ''COMPLETE''"

record Order =
  ID :: int
  Status :: OrderStatus
  AssignedCookUser :: "int option"
  OrderedBy :: int
  CustomerName :: string
  CustomerRole :: RoleType
  CookName :: string

type_synonym heap = "addr \<Rightarrow> Order"

type_synonym timestamp = nat

record User =
  uID :: int
  Name :: string
  Role :: RoleType
  DeletedAt :: "timestamp option"

definition IsCustomer :: "User \<Rightarrow> bool" where
  "IsCustomer u = (Role u = RoleRegularCustomer \<or> Role u = RoleVIPCustomer)"

definition IsVIP :: "User \<Rightarrow> bool" where
  "IsVIP u = (Role u = RoleVIPCustomer)"

definition IsCook :: "User \<Rightarrow> bool" where
  "IsCook u = (Role u = RoleCook)"

definition IsDeleted :: "User \<Rightarrow> bool" where
  "IsDeleted u = (DeletedAt u \<noteq> None)"

text \<open>
  Go errors.  \<open>ErrEmptyQueue\<close> and \<open>ErrNilOrder\<close> are the queue's sentinel values; the others
  stand for the messages built with \<open>fmt.Errorf\<close>, a wrapped error (\<open>%w\<close>) being the
  constructor's argument: \<open>CookNotFound\<close> is "cook not found: ...", \<open>CookIsDeleted\<close> is
  "cook is deleted", \<open>NoOrdersInQueue\<close> is "no orders in queue", and so on.
  \<open>StoreFailure\<close> is an error of a repository other than "not found" (a failed SQL
  statement of the PostgreSQL implementation).
\<close>

datatype error =
    ErrEmptyQueue
  | ErrNilOrder
  | OrderNotFound int
  | UserNotFound int
  | StoreFailure string
  | CookNotFound error
  | UserIsNotACook
  | CookIsDeleted
  | CookIsAlreadyDeleted
  | NoOrdersInQueue
  | FailedToDequeueOrder error
  | FailedToAssignCook error
  | FailedToUpdateOrderStatus error
  | FailedToGetOrders error
  | FailedToSoftDeleteCook error

section \<open>The priority queue (pkg/queue/priority\_queue.go)\<close>

text \<open>
  The two slices are lists of order addresses: \<open>Enqueue\<close> and \<open>EnqueueAtFront\<close> are the only
  writers and both return before writing when the order is nil.  Re-slicing
  (\<open>s[1:]\<close>) is the tail of the list; the slot cleared before it and the capacity-driven
  copy after it do not change the visible elements.  The field \<open>size\<close> is called
  \<open>size_pq\<close> here.  It is a Go \<open>int\<close>, modelled as an unbounded integer: it moves by one
  per stored pointer, and 2^63 pointers do not fit in memory.  The mutex is not modelled:
  each operation holds it from start to end, so the operations are atomic steps.
\<close>

record PriorityQueue =
  vipOrders :: "addr list"
  regularOrders :: "addr list"
  size_pq :: int

definition NewPriorityQueue :: PriorityQueue where
  "NewPriorityQueue = \<lparr>vipOrders = [], regularOrders = [], size_pq = 0\<rparr>"

definition Enqueue :: "heap \<Rightarrow> PriorityQueue \<Rightarrow> addr option \<Rightarrow> error option \<times> PriorityQueue" where
  "Enqueue h pq order =
     (case order of
        None \<Rightarrow> (Some ErrNilOrder, pq)
      | Some p \<Rightarrow>
          (let pq1 = (if CustomerRole (h p) = RoleVIPCustomer
                      then pq\<lparr>vipOrders := vipOrders pq @ [p]\<rparr>
                      else pq\<lparr>regularOrders := regularOrders pq @ [p]\<rparr>)
           in (None, pq1\<lparr>size_pq := size_pq pq1 + 1\<rparr>)))"

definition Dequeue :: "PriorityQueue \<Rightarrow> (addr option \<times> error option) \<times> PriorityQueue" where
  "Dequeue pq =
     (if size_pq pq = 0 then ((None, Some ErrEmptyQueue), pq)
      else
        (let (order, pq1) =
               (case vipOrders pq of
                  p # rest \<Rightarrow> (Some p, pq\<lparr>vipOrders := rest\<rparr>)
                | [] \<Rightarrow>
                    (case regularOrders pq of
                       p # rest \<Rightarrow> (Some p, pq\<lparr>regularOrders := rest\<rparr>)
                     | [] \<Rightarrow> (None, pq)))
         in ((order, None), pq1\<lparr>size_pq := size_pq pq1 - 1\<rparr>)))"

definition EnqueueAtFront :: "heap \<Rightarrow> PriorityQueue \<Rightarrow> addr option \<Rightarrow> error option \<times> PriorityQueue" where
  "EnqueueAtFront h pq order =
     (case order of
        None \<Rightarrow> (Some ErrNilOrder, pq)
      | Some p \<Rightarrow>
          (let pq1 = (if CustomerRole (h p) = RoleVIPCustomer
                      then pq\<lparr>vipOrders := [p] @ vipOrders pq\<rparr>
                      else pq\<lparr>regularOrders := [p] @ regularOrders pq\<rparr>)
           in (None, pq1\<lparr>size_pq := size_pq pq1 + 1\<rparr>)))"

definition Size :: "PriorityQueue \<Rightarrow> int" where
  "Size pq = size_pq pq"

definition IsEmpty :: "PriorityQueue \<Rightarrow> bool" where
  "IsEmpty pq = (size_pq pq = 0)"

definition Peek :: "PriorityQueue \<Rightarrow> addr option \<times> error option" where
  "Peek pq =
     (if size_pq pq = 0 then (None, Some ErrEmptyQueue)
      else
        (case vipOrders pq of
           p # rest \<Rightarrow> (Some p, None)
         | [] \<Rightarrow>
             (case regularOrders pq of
                p # rest \<Rightarrow> (Some p, None)
              | [] \<Rightarrow> (None, Some ErrEmptyQueue))))"

section \<open>Runs of the queue\<close>

text \<open>
  Callers of the queue, as functions: a sequence of calls applied in order (\<open>run\<close>), the
  number of calls in it that succeeded, the items it took out and put in, a batch of
  \<open>Enqueue\<close> calls and a number of consecutive \<open>Dequeue\<close> calls with their results.
  \<open>Peek\<close>, \<open>Size\<close> and \<open>IsEmpty\<close> only read the queue.
\<close>

datatype qop =
    OpEnqueue "addr option"
  | OpEnqueueAtFront "addr option"
  | OpDequeue
  | OpPeek
  | OpSize
  | OpIsEmpty

fun apply_op :: "heap \<Rightarrow> PriorityQueue \<Rightarrow> qop \<Rightarrow> PriorityQueue" where
  "apply_op h pq (OpEnqueue order) = snd (Enqueue h pq order)"
| "apply_op h pq (OpEnqueueAtFront order) = snd (EnqueueAtFront h pq order)"
| "apply_op h pq OpDequeue = snd (Dequeue pq)"
| "apply_op h pq OpPeek = pq"
| "apply_op h pq OpSize = pq"
| "apply_op h pq OpIsEmpty = pq"

fun run :: "heap \<Rightarrow> PriorityQueue \<Rightarrow> qop list \<Rightarrow> PriorityQueue" where
  "run h pq [] = pq"
| "run h pq (x # xs) = run h (apply_op h pq x) xs"

fun enqueue_successes :: "heap \<Rightarrow> PriorityQueue \<Rightarrow> qop list \<Rightarrow> int" where
  "enqueue_successes h pq [] = 0"
| "enqueue_successes h pq (OpEnqueue order # xs) =
     (if fst (Enqueue h pq order) = None then 1 else 0) +
     enqueue_successes h (snd (Enqueue h pq order)) xs"
| "enqueue_successes h pq (OpEnqueueAtFront order # xs) =
     (if fst (EnqueueAtFront h pq order) = None then 1 else 0) +
     enqueue_successes h (snd (EnqueueAtFront h pq order)) xs"
| "enqueue_successes h pq (x # xs) = enqueue_successes h (apply_op h pq x) xs"

fun dequeue_successes :: "heap \<Rightarrow> PriorityQueue \<Rightarrow> qop list \<Rightarrow> int" where
  "dequeue_successes h pq [] = 0"
| "dequeue_successes h pq (OpDequeue # xs) =
     (if snd (fst (Dequeue pq)) = None then 1 else 0) + dequeue_successes h (snd (Dequeue pq)) xs"
| "dequeue_successes h pq (x # xs) = dequeue_successes h (apply_op h pq x) xs"

fun dequeued :: "heap \<Rightarrow> PriorityQueue \<Rightarrow> qop list \<Rightarrow> addr list" where
  "dequeued h pq [] = []"
| "dequeued h pq (OpDequeue # xs) =
     (case fst (fst (Dequeue pq)) of None \<Rightarrow> [] | Some p \<Rightarrow> [p]) @ dequeued h (snd (Dequeue pq)) xs"
| "dequeued h pq (x # xs) = dequeued h (apply_op h pq x) xs"

fun enqueued :: "qop list \<Rightarrow> addr list" where
  "enqueued [] = []"
| "enqueued (OpEnqueue (Some p) # xs) = p # enqueued xs"
| "enqueued (x # xs) = enqueued xs"

fun front_insert :: "qop \<Rightarrow> bool" where
  "front_insert (OpEnqueueAtFront order) = True"
| "front_insert x = False"

fun enqueue_all :: "heap \<Rightarrow> PriorityQueue \<Rightarrow> addr list \<Rightarrow> PriorityQueue" where
  "enqueue_all h pq [] = pq"
| "enqueue_all h pq (p # ps) = enqueue_all h (snd (Enqueue h pq (Some p))) ps"

fun dequeue_n :: "nat \<Rightarrow> PriorityQueue \<Rightarrow> (addr option \<times> error option) list \<times> PriorityQueue" where
  "dequeue_n 0 pq = ([], pq)"
| "dequeue_n (Suc n) pq =
     (case Dequeue pq of (r, pq1) \<Rightarrow> (case dequeue_n n pq1 of (rs, pq2) \<Rightarrow> (r # rs, pq2)))"

definition served :: "addr \<Rightarrow> addr option \<times> error option" where
  "served p = (Some p, None)"

text \<open>
  Invariant I2 (the counter equals the number of stored items), invariant I1 (each slice
  holds orders of its own tier) and the tier of an order.
\<close>

definition pq_inv :: "PriorityQueue \<Rightarrow> bool" where
  "pq_inv pq = (size_pq pq = int (length (vipOrders pq)) + int (length (regularOrders pq)))"

definition tier_ok :: "heap \<Rightarrow> PriorityQueue \<Rightarrow> bool" where
  "tier_ok h pq =
     (list_all (\<lambda>p. CustomerRole (h p) = RoleVIPCustomer) (vipOrders pq) \<and>
      list_all (\<lambda>p. CustomerRole (h p) \<noteq> RoleVIPCustomer) (regularOrders pq))"

definition isVIP :: "heap \<Rightarrow> addr \<Rightarrow> bool" where
  "isVIP h p = (CustomerRole (h p) = RoleVIPCustomer)"

section \<open>Repositories (internal/infrastructure/memory)\<close>

text \<open>
  The service is modelled with the in-memory implementation of \<open>domain.UserRepository\<close>,
  a map from user ids to users.  \<open>SoftDelete\<close> reads the clock; the time it reads is a
  parameter.
\<close>

type_synonym UserRepository = "int \<rightharpoonup> User"

definition GetByID :: "UserRepository \<Rightarrow> int \<Rightarrow> error + User" where
  "GetByID users i = (case users i of None \<Rightarrow> Inl (UserNotFound i) | Some user \<Rightarrow> Inr user)"

definition SoftDelete :: "UserRepository \<Rightarrow> timestamp \<Rightarrow> int \<Rightarrow> error option \<times> UserRepository" where
  "SoftDelete users now i =
     (case users i of
        None \<Rightarrow> (Some (UserNotFound i), users)
      | Some user \<Rightarrow> (None, users(i \<mapsto> user\<lparr>DeletedAt := Some now\<rparr>)))"

definition Reinstate :: "UserRepository \<Rightarrow> int \<Rightarrow> error option \<times> UserRepository" where
  "Reinstate users i =
     (case users i of
        None \<Rightarrow> (Some (UserNotFound i), users)
      | Some user \<Rightarrow> (None, users(i \<mapsto> user\<lparr>DeletedAt := None\<rparr>)))"

text \<open>
  The cook service reaches the orders through the interface \<open>domain.OrderRepository\<close>; the
  interface is a record of the four operations the service calls, over the
  implementation's own state \<open>'r\<close> and the store of order objects.

  The in-memory implementation keeps a Go map from order ids to order pointers and
  updates the order objects in place.  The map is an association list with distinct keys;
  the order of the list is the order in which \<open>range\<close> visits the map, which Go leaves
  unspecified, so a statement about every list is a statement about every iteration
  order.
\<close>

record 'r OrderRepository =
  GetByCookID :: "'r \<Rightarrow> heap \<Rightarrow> int \<Rightarrow> (error + addr list) \<times> 'r \<times> heap"
  AssignCook :: "'r \<Rightarrow> heap \<Rightarrow> int \<Rightarrow> int \<Rightarrow> error option \<times> 'r \<times> heap"
  UnassignCook :: "'r \<Rightarrow> heap \<Rightarrow> int \<Rightarrow> error option \<times> 'r \<times> heap"
  UpdateStatus :: "'r \<Rightarrow> heap \<Rightarrow> int \<Rightarrow> OrderStatus \<Rightarrow> error option \<times> 'r \<times> heap"

record MemoryOrders =
  orders :: "(int \<times> addr) list"
  nextID :: int

definition memory_GetByCookID :: "MemoryOrders \<Rightarrow> heap \<Rightarrow> int \<Rightarrow> (error + addr list) \<times> MemoryOrders \<times> heap" where
  "memory_GetByCookID r h cookID =
     (Inr (filter (\<lambda>order. AssignedCookUser (h order) = Some cookID) (map snd (orders r))), r, h)"

definition memory_AssignCook :: "MemoryOrders \<Rightarrow> heap \<Rightarrow> int \<Rightarrow> int \<Rightarrow> error option \<times> MemoryOrders \<times> heap" where
  "memory_AssignCook r h orderID cookID =
     (case map_of (orders r) orderID of
        None \<Rightarrow> (Some (OrderNotFound orderID), r, h)
      | Some order \<Rightarrow> (None, r, h(order := (h order)\<lparr>AssignedCookUser := Some cookID\<rparr>)))"

definition memory_UnassignCook :: "MemoryOrders \<Rightarrow> heap \<Rightarrow> int \<Rightarrow> error option \<times> MemoryOrders \<times> heap" where
  "memory_UnassignCook r h orderID =
     (case map_of (orders r) orderID of
        None \<Rightarrow> (Some (OrderNotFound orderID), r, h)
      | Some order \<Rightarrow> (None, r, h(order := (h order)\<lparr>AssignedCookUser := None\<rparr>)))"

definition memory_UpdateStatus :: "MemoryOrders \<Rightarrow> heap \<Rightarrow> int \<Rightarrow> OrderStatus \<Rightarrow> error option \<times> MemoryOrders \<times> heap" where
  "memory_UpdateStatus r h orderID status =
     (case map_of (orders r) orderID of
        None \<Rightarrow> (Some (OrderNotFound orderID), r, h)
      | Some order \<Rightarrow> (None, r, h(order := (h order)\<lparr>Status := status\<rparr>)))"

definition memory_repository :: "MemoryOrders OrderRepository" where
  "memory_repository =
     \<lparr>GetByCookID = memory_GetByCookID, AssignCook = memory_AssignCook,
      UnassignCook = memory_UnassignCook, UpdateStatus = memory_UpdateStatus\<rparr>"

text \<open>
  Every key of the map is the \<open>ID\<close> of the order it points to, as \<open>Create\<close> establishes.
\<close>

definition repo_ok :: "heap \<Rightarrow> MemoryOrders \<Rightarrow> bool" where
  "repo_ok h r =
     (distinct (map fst (orders r)) \<and> list_all (\<lambda>(k, order). ID (h order) = k) (orders r))"

section \<open>The cook service (internal/service/cook\_service.go)\<close>

text \<open>
  The state of the service: the order objects, the two repositories, the queue and the
  worker table.  Logging is left out.  The completion timer started by \<open>AcceptOrder\<close>
  (\<open>go s.processOrder\<close>) runs after \<open>AcceptOrder\<close> has returned and is not part of it.
  \<open>order.ID\<close> on a nil order stops the goroutine with a nil dereference, which is the
  outcome \<open>NilDereference\<close>.
\<close>

record cookWorker =
  cookID :: int
  stopChanClosed :: bool
  isRunning :: bool

record 'r cookService =
  objects :: heap
  userRepo :: UserRepository
  orderRepo :: 'r
  orderQueue :: PriorityQueue
  workers :: "int \<rightharpoonup> cookWorker"

datatype 'a outcome = Returns 'a | NilDereference

definition stopWorker :: "'r cookService \<Rightarrow> int \<Rightarrow> 'r cookService" where
  "stopWorker s c =
     (case workers s c of
        None \<Rightarrow> s
      | Some worker \<Rightarrow>
          if isRunning worker
          then s\<lparr>workers := (workers s)(c \<mapsto> worker\<lparr>stopChanClosed := True, isRunning := False\<rparr>)\<rparr>
          else s)"

text \<open>
  The loop of \<open>RemoveCook\<close> over the orders of the removed cook; a failed step is logged
  and the loop goes on with the next order.
\<close>

fun requeue_orders ::
  "'r OrderRepository \<Rightarrow> addr list \<Rightarrow> 'r \<times> heap \<times> PriorityQueue \<Rightarrow> 'r \<times> heap \<times> PriorityQueue" where
  "requeue_orders R [] st = st"
| "requeue_orders R (order # rest) (r, h, q) =
     (if Status (h order) = OrderStatusPending \<or> Status (h order) = OrderStatusServing then
        (case UpdateStatus R r h (ID (h order)) OrderStatusPending of
           (Some err, r1, h1) \<Rightarrow> requeue_orders R rest (r1, h1, q)
         | (None, r1, h1) \<Rightarrow>
             (case UnassignCook R r1 h1 (ID (h1 order)) of
                (Some err, r2, h2) \<Rightarrow> requeue_orders R rest (r2, h2, q)
              | (None, r2, h2) \<Rightarrow>
                  (case EnqueueAtFront h2 q (Some order) of
                     (Some err, q1) \<Rightarrow> requeue_orders R rest (r2, h2, q1)
                   | (None, q1) \<Rightarrow> requeue_orders R rest (r2, h2, q1))))
      else requeue_orders R rest (r, h, q))"

definition RemoveCook ::
  "'r OrderRepository \<Rightarrow> timestamp \<Rightarrow> 'r cookService \<Rightarrow> int \<Rightarrow> error option \<times> 'r cookService" where
  "RemoveCook R now s c =
     (case GetByID (userRepo s) c of
        Inl err \<Rightarrow> (Some (CookNotFound err), s)
      | Inr cook \<Rightarrow>
          if \<not> IsCook cook then (Some UserIsNotACook, s)
          else if IsDeleted cook then (Some CookIsAlreadyDeleted, s)
          else
            (let s1 = stopWorker s c in
             case GetByCookID R (orderRepo s1) (objects s1) c of
               (Inl err, r1, h1) \<Rightarrow>
                 (Some (FailedToGetOrders err), s1\<lparr>objects := h1, orderRepo := r1\<rparr>)
             | (Inr held, r1, h1) \<Rightarrow>
                 (case requeue_orders R held (r1, h1, orderQueue s1) of
                    (r2, h2, q2) \<Rightarrow>
                      (case SoftDelete (userRepo s1) now c of
                         (Some err, users) \<Rightarrow>
                           (Some (FailedToSoftDeleteCook err),
                            s1\<lparr>objects := h2, userRepo := users, orderRepo := r2, orderQueue := q2\<rparr>)
                       | (None, users) \<Rightarrow>
                           (None,
                            s1\<lparr>objects := h2, userRepo := users, orderRepo := r2, orderQueue := q2\<rparr>)))))"

definition AcceptOrder ::
  "'r OrderRepository \<Rightarrow> 'r cookService \<Rightarrow> int \<Rightarrow> (addr option \<times> error option) outcome \<times> 'r cookService" where
  "AcceptOrder R s c =
     (case GetByID (userRepo s) c of
        Inl err \<Rightarrow> (Returns (None, Some (CookNotFound err)), s)
      | Inr cook \<Rightarrow>
          if \<not> IsCook cook then (Returns (None, Some UserIsNotACook), s)
          else if IsDeleted cook then (Returns (None, Some CookIsDeleted), s)
          else
            (case Dequeue (orderQueue s) of
               ((order, Some err), q1) \<Rightarrow>
                 if err = ErrEmptyQueue
                 then (Returns (None, Some NoOrdersInQueue), s\<lparr>orderQueue := q1\<rparr>)
                 else (Returns (None, Some (FailedToDequeueOrder err)), s\<lparr>orderQueue := q1\<rparr>)
             | ((None, None), q1) \<Rightarrow> (NilDereference, s\<lparr>orderQueue := q1\<rparr>)
             | ((Some order, None), q1) \<Rightarrow>
                 (case AssignCook R (orderRepo s) (objects s) (ID (objects s order)) c of
                    (Some err, r1, h1) \<Rightarrow>
                      (Returns (None, Some (FailedToAssignCook err)),
                       s\<lparr>objects := h1, orderRepo := r1,
                         orderQueue := snd (EnqueueAtFront h1 q1 (Some order))\<rparr>)
                  | (None, r1, h1) \<Rightarrow>
                      (case UpdateStatus R r1 h1 (ID (h1 order)) OrderStatusServing of
                         (Some err, r2, h2) \<Rightarrow>
                           (Returns (None, Some (FailedToUpdateOrderStatus err)),
                            s\<lparr>objects := h2, orderRepo := r2, orderQueue := q1\<rparr>)
                       | (None, r2, h2) \<Rightarrow>
                           (Returns (Some order, None),
                            s\<lparr>objects := h2, orderRepo := r2, orderQueue := q1\<rparr>)))))"

text \<open>
  What \<open>RemoveCook\<close> works on: the orders a cook holds in the in-memory repository, in
  iteration order, those of them it puts back (\<open>PENDING\<close> or \<open>SERVING\<close>), the object it
  leaves behind, and the slice of the queue an order belongs to.
\<close>

definition held_by :: "heap \<Rightarrow> MemoryOrders \<Rightarrow> int \<Rightarrow> addr list" where
  "held_by h r c = filter (\<lambda>order. AssignedCookUser (h order) = Some c) (map snd (orders r))"

definition active :: "heap \<Rightarrow> addr \<Rightarrow> bool" where
  "active h p = (Status (h p) = OrderStatusPending \<or> Status (h p) = OrderStatusServing)"

definition requeued :: "heap \<Rightarrow> addr \<Rightarrow> Order" where
  "requeued h p = (h p)\<lparr>Status := OrderStatusPending, AssignedCookUser := None\<rparr>"



text \<open>
  A well-formed state of the service over the in-memory repository: the repository is
  keyed by the orders' ids, the queue is consistent, and every queued pointer is a pointer
  the repository holds.  Order creation stores in the repository the pointer it enqueues;
  \<open>AcceptOrder\<close> and \<open>RemoveCook\<close> keep states well-formed (\<open>kitchen_ok_AcceptOrder\<close>,
  \<open>kitchen_ok_RemoveCook\<close>).
\<close>

definition kitchen_ok :: "MemoryOrders cookService \<Rightarrow> bool" where
  "kitchen_ok s =
     (repo_ok (objects s) (orderRepo s) \<and> pq_inv (orderQueue s) \<and>
      tier_ok (objects s) (orderQueue s) \<and>
      list_all (\<lambda>p. p \<in> snd ` set (orders (orderRepo s)))
        (vipOrders (orderQueue s) @ regularOrders (orderQueue s)))"

section \<open>Concrete states\<close>

text \<open>
  A store in which orders at even addresses belong to VIP customers and the others to
  regular customers, and a kitchen with an active cook (10), a removed cook (11), a
  customer (20), the regular orders 3 and 5 and the VIP order 4.
\<close>

definition h0 :: heap where
  "h0 p = \<lparr>ID = int p, Status = OrderStatusPending, AssignedCookUser = None, OrderedBy = 0,
           CustomerName = [], CustomerRole = (if even p then RoleVIPCustomer else RoleRegularCustomer),
           CookName = []\<rparr>"

definition cook10 :: User where
  "cook10 = \<lparr>uID = 10, Name = ''Bot'', Role = RoleCook, DeletedAt = None\<rparr>"

definition cook11 :: User where
  "cook11 = \<lparr>uID = 11, Name = ''Old Bot'', Role = RoleCook, DeletedAt = Some 5\<rparr>"

definition customer20 :: User where
  "customer20 = \<lparr>uID = 20, Name = ''Guest'', Role = RoleRegularCustomer, DeletedAt = None\<rparr>"

definition kitchen :: "PriorityQueue \<Rightarrow> MemoryOrders cookService" where
  "kitchen pq =
     \<lparr>objects = h0, userRepo = [10 \<mapsto> cook10, 11 \<mapsto> cook11, 20 \<mapsto> customer20],
      orderRepo = \<lparr>orders = [(3, 3), (4, 4), (5, 5)], nextID = 6\<rparr>,
      orderQueue = pq, workers = Map.empty\<rparr>"

definition two_regular :: PriorityQueue where
  "two_regular = \<lparr>vipOrders = [], regularOrders = [3, 5], size_pq = 2\<rparr>"





text \<open>
  An implementation of the interface whose status update fails, as the PostgreSQL
  implementation's does when its \<open>UPDATE\<close> statement returns an error (a lost connection,
  a cancelled context); the other operations are those of the in-memory implementation.
\<close>

definition failing_UpdateStatus :: "MemoryOrders \<Rightarrow> heap \<Rightarrow> int \<Rightarrow> OrderStatus \<Rightarrow> error option \<times> MemoryOrders \<times> heap" where
  "failing_UpdateStatus r h orderID status = (Some (StoreFailure ''failed to update status''), r, h)"

definition status_failing_repository :: "MemoryOrders OrderRepository" where
  "status_failing_repository = memory_repository\<lparr>UpdateStatus := failing_UpdateStatus\<rparr>"

text \<open>
  An implementation whose \<open>AssignCook\<close> and \<open>UpdateStatus\<close> succeed for a known order id and
  leave the order objects as they are, as the PostgreSQL implementation's do: their
  \<open>UPDATE\<close> statements change the row of the order in the database and never the Go object
  that the queue holds.  The rows are not modelled; the other operations are those of the
  in-memory implementation.
\<close>

definition rows_AssignCook :: "MemoryOrders \<Rightarrow> heap \<Rightarrow> int \<Rightarrow> int \<Rightarrow> error option \<times> MemoryOrders \<times> heap" where
  "rows_AssignCook r h orderID c =
     (case map_of (orders r) orderID of
        None \<Rightarrow> (Some (OrderNotFound orderID), r, h)
      | Some order \<Rightarrow> (None, r, h))"

definition rows_UpdateStatus :: "MemoryOrders \<Rightarrow> heap \<Rightarrow> int \<Rightarrow> OrderStatus \<Rightarrow> error option \<times> MemoryOrders \<times> heap" where
  "rows_UpdateStatus r h orderID status =
     (case map_of (orders r) orderID of
        None \<Rightarrow> (Some (OrderNotFound orderID), r, h)
      | Some order \<Rightarrow> (None, r, h))"

definition rows_repository :: "MemoryOrders OrderRepository" where
  "rows_repository = memory_repository\<lparr>AssignCook := rows_AssignCook, UpdateStatus := rows_UpdateStatus\<rparr>"

section \<open>Invariants of the queue\<close>

lemma pq_inv_New: "pq_inv NewPriorityQueue"
  by (simp add: pq_inv_def NewPriorityQueue_def)

lemma pq_inv_Enqueue: "pq_inv pq \<Longrightarrow> pq_inv (snd (Enqueue h pq order))"
  by (cases order) (simp_all add: pq_inv_def Enqueue_def Let_def)

lemma pq_inv_EnqueueAtFront: "pq_inv pq \<Longrightarrow> pq_inv (snd (EnqueueAtFront h pq order))"
  by (cases order) (simp_all add: pq_inv_def EnqueueAtFront_def Let_def)

lemma pq_inv_Dequeue: "pq_inv pq \<Longrightarrow> pq_inv (snd (Dequeue pq))"
  by (cases "vipOrders pq"; cases "regularOrders pq")
     (simp_all add: pq_inv_def Dequeue_def)

lemma pq_inv_apply_op: "pq_inv pq \<Longrightarrow> pq_inv (apply_op h pq x)"
  by (cases x) (simp_all add: pq_inv_Enqueue pq_inv_EnqueueAtFront pq_inv_Dequeue)

lemma pq_inv_run: "pq_inv pq \<Longrightarrow> pq_inv (run h pq xs)"
  by (induction xs arbitrary: pq) (simp_all add: pq_inv_apply_op)

lemma tier_ok_New: "tier_ok h NewPriorityQueue"
  by (simp add: tier_ok_def NewPriorityQueue_def)

lemma tier_ok_Enqueue: "tier_ok h pq \<Longrightarrow> tier_ok h (snd (Enqueue h pq order))"
  by (cases order) (simp_all add: tier_ok_def Enqueue_def Let_def)

lemma tier_ok_EnqueueAtFront: "tier_ok h pq \<Longrightarrow> tier_ok h (snd (EnqueueAtFront h pq order))"
  by (cases order) (simp_all add: tier_ok_def EnqueueAtFront_def Let_def)

lemma tier_ok_Dequeue: "tier_ok h pq \<Longrightarrow> tier_ok h (snd (Dequeue pq))"
  by (cases "vipOrders pq"; cases "regularOrders pq")
     (simp_all add: tier_ok_def Dequeue_def)

lemma tier_ok_apply_op: "tier_ok h pq \<Longrightarrow> tier_ok h (apply_op h pq x)"
  by (cases x) (simp_all add: tier_ok_Enqueue tier_ok_EnqueueAtFront tier_ok_Dequeue)

lemma tier_ok_run: "tier_ok h pq \<Longrightarrow> tier_ok h (run h pq xs)"
  by (induction xs arbitrary: pq) (simp_all add: tier_ok_apply_op)

lemma Dequeue_vip:
  "pq_inv pq \<Longrightarrow> vipOrders pq = p # rest \<Longrightarrow>
   Dequeue pq = ((Some p, None), pq\<lparr>vipOrders := rest, size_pq := size_pq pq - 1\<rparr>)"
  by (simp add: pq_inv_def Dequeue_def)

lemma Dequeue_regular:
  "pq_inv pq \<Longrightarrow> vipOrders pq = [] \<Longrightarrow> regularOrders pq = p # rest \<Longrightarrow>
   Dequeue pq = ((Some p, None), pq\<lparr>regularOrders := rest, size_pq := size_pq pq - 1\<rparr>)"
  by (simp add: pq_inv_def Dequeue_def)

lemma Dequeue_empty:
  "pq_inv pq \<Longrightarrow> vipOrders pq = [] \<Longrightarrow> regularOrders pq = [] \<Longrightarrow>
   Dequeue pq = ((None, Some ErrEmptyQueue), pq)"
  by (simp add: pq_inv_def Dequeue_def)

lemma Peek_vip: "pq_inv pq \<Longrightarrow> vipOrders pq = p # rest \<Longrightarrow> Peek pq = (Some p, None)"
  by (simp add: pq_inv_def Peek_def)

lemma Peek_regular:
  "pq_inv pq \<Longrightarrow> vipOrders pq = [] \<Longrightarrow> regularOrders pq = p # rest \<Longrightarrow> Peek pq = (Some p, None)"
  by (simp add: pq_inv_def Peek_def)

lemma Peek_empty:
  "vipOrders pq = [] \<Longrightarrow> regularOrders pq = [] \<Longrightarrow> Peek pq = (None, Some ErrEmptyQueue)"
  by (simp add: Peek_def)

section \<open>Tier priority\<close>

text \<open>
  Claim C1.  In every state the queue reaches from \<open>NewPriorityQueue\<close> by any sequence of
  its operations: when the VIP slice is not empty, \<open>Dequeue\<close> and \<open>Peek\<close> return its head,
  which is an order of a VIP customer; when the VIP slice is empty and the regular slice is
  not, they return the head of the regular slice; when both are empty they return
  \<open>ErrEmptyQueue\<close> and no order.
\<close>

theorem queue_head_by_tier:
  assumes "pq = run h NewPriorityQueue ops"
  shows "(vipOrders pq \<noteq> [] \<longrightarrow>
            fst (Dequeue pq) = (Some (hd (vipOrders pq)), None) \<and>
            Peek pq = (Some (hd (vipOrders pq)), None) \<and>
            CustomerRole (h (hd (vipOrders pq))) = RoleVIPCustomer) \<and>
         (vipOrders pq = [] \<and> regularOrders pq \<noteq> [] \<longrightarrow>
            fst (Dequeue pq) = (Some (hd (regularOrders pq)), None) \<and>
            Peek pq = (Some (hd (regularOrders pq)), None)) \<and>
         (vipOrders pq = [] \<and> regularOrders pq = [] \<longrightarrow>
            fst (Dequeue pq) = (None, Some ErrEmptyQueue) \<and>
            Peek pq = (None, Some ErrEmptyQueue))"
proof -
  have i: "pq_inv pq" using assms by (simp add: pq_inv_run pq_inv_New)
  have t: "tier_ok h pq" using assms by (simp add: tier_ok_run tier_ok_New)
  have a: "fst (Dequeue pq) = (Some (hd (vipOrders pq)), None) \<and>
           Peek pq = (Some (hd (vipOrders pq)), None) \<and>
           CustomerRole (h (hd (vipOrders pq))) = RoleVIPCustomer" if ne: "vipOrders pq \<noteq> []"
  proof -
    obtain p rest where v: "vipOrders pq = p # rest" using ne by (auto simp: neq_Nil_conv)
    show ?thesis using Dequeue_vip [OF i v] Peek_vip [OF i v] t v by (simp add: tier_ok_def)
  qed
  have b: "fst (Dequeue pq) = (Some (hd (regularOrders pq)), None) \<and>
           Peek pq = (Some (hd (regularOrders pq)), None)"
    if e: "vipOrders pq = []" and ne: "regularOrders pq \<noteq> []"
  proof -
    obtain p rest where r: "regularOrders pq = p # rest"
      using ne by (auto simp: neq_Nil_conv)
    show ?thesis using Dequeue_regular [OF i e r] Peek_regular [OF i e r] r by simp
  qed
  have c: "fst (Dequeue pq) = (None, Some ErrEmptyQueue) \<and> Peek pq = (None, Some ErrEmptyQueue)"
    if "vipOrders pq = []" "regularOrders pq = []"
    using Dequeue_empty [OF i that] Peek_empty [OF that] by simp
  show ?thesis using a b c by blast
qed

lemma run_example:
  "run h0 NewPriorityQueue [OpEnqueue (Some 1), OpEnqueue (Some 2), OpEnqueue (Some 3)] =
     \<lparr>vipOrders = [2], regularOrders = [1, 3], size_pq = 3\<rparr>"
  "run h0 NewPriorityQueue [OpEnqueue (Some 1), OpEnqueue (Some 3)] =
     \<lparr>vipOrders = [], regularOrders = [1, 3], size_pq = 2\<rparr>"
  "run h0 NewPriorityQueue [OpEnqueue (Some 1), OpDequeue] =
     \<lparr>vipOrders = [], regularOrders = [], size_pq = 0\<rparr>"
  by (simp_all add: NewPriorityQueue_def Enqueue_def Dequeue_def h0_def RoleVIPCustomer_def
      RoleRegularCustomer_def)

theorem queue_head_by_tier_witness:
  "vipOrders (run h0 NewPriorityQueue [OpEnqueue (Some 1), OpEnqueue (Some 2), OpEnqueue (Some 3)]) \<noteq> [] \<and>
   fst (Dequeue (run h0 NewPriorityQueue [OpEnqueue (Some 1), OpEnqueue (Some 2), OpEnqueue (Some 3)]))
     = (Some 2, None) \<and>
   Peek (run h0 NewPriorityQueue [OpEnqueue (Some 1), OpEnqueue (Some 2), OpEnqueue (Some 3)])
     = (Some 2, None) \<and>
   vipOrders (run h0 NewPriorityQueue [OpEnqueue (Some 1), OpEnqueue (Some 3)]) = [] \<and>
   regularOrders (run h0 NewPriorityQueue [OpEnqueue (Some 1), OpEnqueue (Some 3)]) \<noteq> [] \<and>
   fst (Dequeue (run h0 NewPriorityQueue [OpEnqueue (Some 1), OpEnqueue (Some 3)])) = (Some 1, None) \<and>
   Peek (run h0 NewPriorityQueue [OpEnqueue (Some 1), OpEnqueue (Some 3)]) = (Some 1, None) \<and>
   vipOrders (run h0 NewPriorityQueue [OpEnqueue (Some 1), OpDequeue]) = [] \<and>
   regularOrders (run h0 NewPriorityQueue [OpEnqueue (Some 1), OpDequeue]) = [] \<and>
   fst (Dequeue (run h0 NewPriorityQueue [OpEnqueue (Some 1), OpDequeue])) = (None, Some ErrEmptyQueue) \<and>
   Peek (run h0 NewPriorityQueue [OpEnqueue (Some 1), OpDequeue]) = (None, Some ErrEmptyQueue)"
  unfolding run_example
  using queue_head_by_tier [OF run_example(1) [symmetric]]
    queue_head_by_tier [OF run_example(2) [symmetric]]
    queue_head_by_tier [OF run_example(3) [symmetric]]
  by simp

section \<open>Order of service\<close>

text \<open>
  Taking everything out of a consistent queue returns the VIP slice followed by the
  regular slice; a batch of \<open>Enqueue\<close> calls appends each order to the slice of its tier.
\<close>

lemma dequeue_n_drain:
  "pq_inv pq \<Longrightarrow> n = length (vipOrders pq) + length (regularOrders pq) \<Longrightarrow>
   dequeue_n n pq =
     (map served (vipOrders pq @ regularOrders pq),
      pq\<lparr>vipOrders := [], regularOrders := [], size_pq := 0\<rparr>)"
proof (induction n arbitrary: pq)
  case 0
  then show ?case by (simp add: pq_inv_def)
next
  case (Suc n)
  show ?case
  proof (cases "vipOrders pq")
    case (Cons p rest)
    let ?pq1 = "pq\<lparr>vipOrders := rest, size_pq := size_pq pq - 1\<rparr>"
    have d: "Dequeue pq = ((Some p, None), ?pq1)"
      using Suc.prems(1) Cons by (rule Dequeue_vip)
    have i: "pq_inv ?pq1" using Suc.prems(1) Cons by (simp add: pq_inv_def)
    have n: "n = length (vipOrders ?pq1) + length (regularOrders ?pq1)"
      using Suc.prems(2) Cons by simp
    show ?thesis using Suc.IH [OF i n] d Cons by (simp add: served_def)
  next
    case Nil
    then obtain p rest where r: "regularOrders pq = p # rest"
      using Suc.prems(2) by (cases "regularOrders pq") simp_all
    let ?pq1 = "pq\<lparr>regularOrders := rest, size_pq := size_pq pq - 1\<rparr>"
    have d: "Dequeue pq = ((Some p, None), ?pq1)"
      using Suc.prems(1) Nil r by (rule Dequeue_regular)
    have i: "pq_inv ?pq1" using Suc.prems(1) r by (simp add: pq_inv_def)
    have n: "n = length (vipOrders ?pq1) + length (regularOrders ?pq1)"
      using Suc.prems(2) Nil r by simp
    show ?thesis using Suc.IH [OF i n] d Nil r by (simp add: served_def)
  qed
qed

lemma enqueue_all_eq:
  "enqueue_all h pq ps =
     pq\<lparr>vipOrders := vipOrders pq @ filter (isVIP h) ps,
        regularOrders := regularOrders pq @ filter (\<lambda>p. \<not> isVIP h p) ps,
        size_pq := size_pq pq + int (length ps)\<rparr>"
  by (induction ps arbitrary: pq) (simp_all add: Enqueue_def isVIP_def Let_def)

lemma pq_inv_enqueue_all: "pq_inv pq \<Longrightarrow> pq_inv (enqueue_all h pq ps)"
  by (induction ps arbitrary: pq) (simp_all add: pq_inv_Enqueue)

lemma drain_enqueue_all:
  assumes "pq_inv pq"
  shows "fst (dequeue_n (nat (size_pq (enqueue_all h pq ps))) (enqueue_all h pq ps)) =
           map served ((vipOrders pq @ filter (isVIP h) ps) @
                       (regularOrders pq @ filter (\<lambda>p. \<not> isVIP h p) ps))"
proof -
  let ?q = "enqueue_all h pq ps"
  have i: "pq_inv ?q" using assms by (rule pq_inv_enqueue_all)
  have n: "nat (size_pq ?q) = length (vipOrders ?q) + length (regularOrders ?q)"
    using i by (simp add: pq_inv_def)
  show ?thesis using dequeue_n_drain [OF i n] by (simp add: enqueue_all_eq)
qed

text \<open>
  For any interleaving of calls without \<open>EnqueueAtFront\<close>, in each tier the orders taken
  out so far, followed by the orders still queued, are the orders queued at the start
  followed by the orders put in, in the order of the \<open>Enqueue\<close> calls.
\<close>

lemma tier_history:
  assumes "pq_inv pq" and "tier_ok h pq" and "\<not> list_ex front_insert xs"
  shows "filter (isVIP h) (dequeued h pq xs) @ vipOrders (run h pq xs) =
           vipOrders pq @ filter (isVIP h) (enqueued xs) \<and>
         filter (\<lambda>p. \<not> isVIP h p) (dequeued h pq xs) @ regularOrders (run h pq xs) =
           regularOrders pq @ filter (\<lambda>p. \<not> isVIP h p) (enqueued xs)"
  using assms
proof (induction xs arbitrary: pq)
  case Nil
  then show ?case by simp
next
  case (Cons x xs)
  have nf: "\<not> list_ex front_insert xs" using Cons.prems(3) by simp
  have i: "pq_inv (apply_op h pq x)" using Cons.prems(1) by (rule pq_inv_apply_op)
  have t: "tier_ok h (apply_op h pq x)" using Cons.prems(2) by (rule tier_ok_apply_op)
  note IH = Cons.IH [OF i t nf]
  show ?case
  proof (cases x)
    case (OpEnqueue order)
    show ?thesis
    proof (cases order)
      case None
      then show ?thesis using IH OpEnqueue by (simp add: Enqueue_def)
    next
      case (Some p)
      then show ?thesis using IH OpEnqueue by (simp add: Enqueue_def Let_def isVIP_def)
    qed
  next
    case (OpEnqueueAtFront order)
    then show ?thesis using Cons.prems(3) by simp
  next
    case OpDequeue
    show ?thesis
    proof (cases "vipOrders pq")
      case vip: (Cons p rest)
      have v: "isVIP h p" using Cons.prems(2) vip by (simp add: tier_ok_def isVIP_def)
      show ?thesis using IH OpDequeue Dequeue_vip [OF Cons.prems(1) vip] v vip by simp
    next
      case novip: Nil
      show ?thesis
      proof (cases "regularOrders pq")
        case reg: (Cons p rest)
        have v: "\<not> isVIP h p" using Cons.prems(2) reg by (simp add: tier_ok_def isVIP_def)
        show ?thesis
          using IH OpDequeue Dequeue_regular [OF Cons.prems(1) novip reg] v novip reg by simp
      next
        case noreg: Nil
        show ?thesis
          using IH OpDequeue Dequeue_empty [OF Cons.prems(1) novip noreg] novip noreg by simp
      qed
    qed
  next
    case OpPeek
    then show ?thesis using IH by simp
  next
    case OpSize
    then show ?thesis using IH by simp
  next
    case OpIsEmpty
    then show ?thesis using IH by simp
  qed
qed

text \<open>
  Claim C4.  Orders of a single tier put in by consecutive \<open>Enqueue\<close> calls come out of
  repeated \<open>Dequeue\<close> calls in the order they were put in: after the orders already queued
  in that tier, and with the VIP tier served before the regular tier.  The third part
  states the same for any interleaving of \<open>Enqueue\<close> and \<open>Dequeue\<close> calls on both tiers.
\<close>

theorem fifo_within_tier:
  "(pq_inv pq \<and> list_all (isVIP h) ps \<longrightarrow>
      fst (dequeue_n (nat (size_pq (enqueue_all h pq ps))) (enqueue_all h pq ps)) =
        map served (vipOrders pq @ ps @ regularOrders pq)) \<and>
   (pq_inv pq \<and> list_all (\<lambda>p. \<not> isVIP h p) ps \<longrightarrow>
      fst (dequeue_n (nat (size_pq (enqueue_all h pq ps))) (enqueue_all h pq ps)) =
        map served (vipOrders pq @ regularOrders pq @ ps)) \<and>
   (pq_inv pq \<and> tier_ok h pq \<and> \<not> list_ex front_insert xs \<longrightarrow>
      filter (isVIP h) (dequeued h pq xs) @ vipOrders (run h pq xs) =
        vipOrders pq @ filter (isVIP h) (enqueued xs) \<and>
      filter (\<lambda>p. \<not> isVIP h p) (dequeued h pq xs) @ regularOrders (run h pq xs) =
        regularOrders pq @ filter (\<lambda>p. \<not> isVIP h p) (enqueued xs))"
proof -
  have a: "filter (isVIP h) ps = ps \<and> filter (\<lambda>p. \<not> isVIP h p) ps = []"
    if "list_all (isVIP h) ps"
    using that by (induction ps) simp_all
  have b: "filter (isVIP h) ps = [] \<and> filter (\<lambda>p. \<not> isVIP h p) ps = ps"
    if "list_all (\<lambda>p. \<not> isVIP h p) ps"
    using that by (induction ps) simp_all
  show ?thesis using drain_enqueue_all [of pq h ps] a b tier_history [of pq h xs] by auto
qed

theorem fifo_within_tier_witness:
  "pq_inv NewPriorityQueue \<and> tier_ok h0 NewPriorityQueue \<and>
   list_all (\<lambda>p. \<not> isVIP h0 p) [1, 3, 5] \<and> list_all (isVIP h0) [2, 4] \<and>
   \<not> list_ex front_insert [OpEnqueue (Some 1), OpEnqueue (Some 2), OpDequeue, OpEnqueue (Some 3)] \<and>
   fst (dequeue_n 3 (enqueue_all h0 NewPriorityQueue [1, 3, 5])) = [served 1, served 3, served 5] \<and>
   fst (dequeue_n 2 (enqueue_all h0 NewPriorityQueue [2, 4])) = [served 2, served 4] \<and>
   filter (\<lambda>p. \<not> isVIP h0 p)
       (dequeued h0 NewPriorityQueue [OpEnqueue (Some 1), OpEnqueue (Some 2), OpDequeue, OpEnqueue (Some 3)]) @
     regularOrders (run h0 NewPriorityQueue
       [OpEnqueue (Some 1), OpEnqueue (Some 2), OpDequeue, OpEnqueue (Some 3)]) = [1, 3]"
proof -
  have l: "list_all (\<lambda>p. \<not> isVIP h0 p) [1, 3, 5]" "list_all (isVIP h0) [2, 4]"
    by (simp_all add: isVIP_def h0_def RoleVIPCustomer_def RoleRegularCustomer_def)
  have s: "nat (size_pq (enqueue_all h0 NewPriorityQueue [1, 3, 5])) = 3"
    "nat (size_pq (enqueue_all h0 NewPriorityQueue [2, 4])) = 2"
    by (simp_all add: enqueue_all_eq NewPriorityQueue_def)
  have f: "\<not> list_ex front_insert [OpEnqueue (Some 1), OpEnqueue (Some 2), OpDequeue, OpEnqueue (Some 3)]"
    by simp
  have e: "filter (\<lambda>p. \<not> isVIP h0 p)
             (enqueued [OpEnqueue (Some 1), OpEnqueue (Some 2), OpDequeue, OpEnqueue (Some 3)]) = [1, 3]"
    by (simp add: isVIP_def h0_def RoleVIPCustomer_def RoleRegularCustomer_def)
  have n: "vipOrders NewPriorityQueue = []" "regularOrders NewPriorityQueue = []"
    by (simp_all add: NewPriorityQueue_def)
  show ?thesis
    using fifo_within_tier [of NewPriorityQueue h0 "[1, 3, 5]"
        "[OpEnqueue (Some 1), OpEnqueue (Some 2), OpDequeue, OpEnqueue (Some 3)]"]
      fifo_within_tier [of NewPriorityQueue h0 "[2, 4]" "[]"]
      l f pq_inv_New tier_ok_New [of h0]
    unfolding s e n by simp
qed

text \<open>
  Claim C5.  An order put in by \<open>EnqueueAtFront\<close> comes out before every order that was in
  its tier at that time and before every order put into that tier by later \<open>Enqueue\<close>
  calls: emptying the queue returns it first of its tier, and in any interleaving of
  later \<open>Enqueue\<close> and \<open>Dequeue\<close> calls it is the first order of its tier to come out.
\<close>

theorem front_insert_precedes:
  "(pq_inv pq \<longrightarrow>
      fst (dequeue_n (nat (size_pq (enqueue_all h (snd (EnqueueAtFront h pq (Some x))) ps)))
                (enqueue_all h (snd (EnqueueAtFront h pq (Some x))) ps)) =
           (if CustomerRole (h x) = RoleVIPCustomer
            then map served ((x # vipOrders pq @ filter (isVIP h) ps) @
                             (regularOrders pq @ filter (\<lambda>p. \<not> isVIP h p) ps))
            else map served ((vipOrders pq @ filter (isVIP h) ps) @
                             (x # regularOrders pq @ filter (\<lambda>p. \<not> isVIP h p) ps)))) \<and>
   (pq_inv pq \<and> tier_ok h pq \<and> \<not> list_ex front_insert xs \<longrightarrow>
      (if CustomerRole (h x) = RoleVIPCustomer
       then filter (isVIP h) (dequeued h (snd (EnqueueAtFront h pq (Some x))) xs) @
              vipOrders (run h (snd (EnqueueAtFront h pq (Some x))) xs) =
            x # vipOrders pq @ filter (isVIP h) (enqueued xs)
       else filter (\<lambda>p. \<not> isVIP h p) (dequeued h (snd (EnqueueAtFront h pq (Some x))) xs) @
              regularOrders (run h (snd (EnqueueAtFront h pq (Some x))) xs) =
            x # regularOrders pq @ filter (\<lambda>p. \<not> isVIP h p) (enqueued xs)))"
proof -
  let ?q = "snd (EnqueueAtFront h pq (Some x))"
  have a: "fst (dequeue_n (nat (size_pq (enqueue_all h ?q ps))) (enqueue_all h ?q ps)) =
           (if CustomerRole (h x) = RoleVIPCustomer
            then map served ((x # vipOrders pq @ filter (isVIP h) ps) @
                             (regularOrders pq @ filter (\<lambda>p. \<not> isVIP h p) ps))
            else map served ((vipOrders pq @ filter (isVIP h) ps) @
                             (x # regularOrders pq @ filter (\<lambda>p. \<not> isVIP h p) ps)))"
    if i: "pq_inv pq"
  proof -
    have "pq_inv ?q" using i by (rule pq_inv_EnqueueAtFront)
    then show ?thesis using drain_enqueue_all [of ?q h ps]
      by (simp add: EnqueueAtFront_def Let_def)
  qed
  have b: "(if CustomerRole (h x) = RoleVIPCustomer
       then filter (isVIP h) (dequeued h ?q xs) @ vipOrders (run h ?q xs) =
            x # vipOrders pq @ filter (isVIP h) (enqueued xs)
       else filter (\<lambda>p. \<not> isVIP h p) (dequeued h ?q xs) @ regularOrders (run h ?q xs) =
            x # regularOrders pq @ filter (\<lambda>p. \<not> isVIP h p) (enqueued xs))"
    if i: "pq_inv pq" and t: "tier_ok h pq" and f: "\<not> list_ex front_insert xs"
  proof -
    have i': "pq_inv ?q" using i by (rule pq_inv_EnqueueAtFront)
    have t': "tier_ok h ?q" using t by (rule tier_ok_EnqueueAtFront)
    have v: "vipOrders ?q =
               (if CustomerRole (h x) = RoleVIPCustomer then x # vipOrders pq else vipOrders pq)"
      by (simp add: EnqueueAtFront_def Let_def)
    have r: "regularOrders ?q =
               (if CustomerRole (h x) = RoleVIPCustomer then regularOrders pq else x # regularOrders pq)"
      by (simp add: EnqueueAtFront_def Let_def)
    show ?thesis
    proof (cases "CustomerRole (h x) = RoleVIPCustomer")
      case True
      then show ?thesis using tier_history [OF i' t' f] v by simp
    next
      case False
      then show ?thesis using tier_history [OF i' t' f] r by simp
    qed
  qed
  show ?thesis using a b by blast
qed

theorem front_insert_precedes_witness:
  "pq_inv \<lparr>vipOrders = [], regularOrders = [1, 3, 5], size_pq = 3\<rparr> \<and>
   tier_ok h0 \<lparr>vipOrders = [], regularOrders = [1, 3, 5], size_pq = 3\<rparr> \<and>
   \<not> list_ex front_insert [OpDequeue, OpEnqueue (Some 9), OpDequeue] \<and>
   fst (dequeue_n 5 (enqueue_all h0
          (snd (EnqueueAtFront h0 \<lparr>vipOrders = [], regularOrders = [1, 3, 5], size_pq = 3\<rparr> (Some 7)))
          [9])) =
     [served 7, served 1, served 3, served 5, served 9] \<and>
   dequeued h0 (snd (EnqueueAtFront h0 \<lparr>vipOrders = [], regularOrders = [1, 3, 5], size_pq = 3\<rparr> (Some 7)))
     [OpDequeue, OpEnqueue (Some 9), OpDequeue] = [7, 1]"
proof -
  let ?pq = "\<lparr>vipOrders = [], regularOrders = [1, 3, 5], size_pq = 3\<rparr>"
  have i: "pq_inv ?pq" by (simp add: pq_inv_def)
  have t: "tier_ok h0 ?pq"
    by (simp add: tier_ok_def h0_def RoleVIPCustomer_def RoleRegularCustomer_def)
  have f: "\<not> list_ex front_insert [OpDequeue, OpEnqueue (Some 9), OpDequeue]" by simp
  have s: "nat (size_pq (enqueue_all h0 (snd (EnqueueAtFront h0 ?pq (Some 7))) [9])) = 5"
    by (simp add: enqueue_all_eq EnqueueAtFront_def Let_def)
  have d: "dequeued h0 (snd (EnqueueAtFront h0 ?pq (Some 7)))
             [OpDequeue, OpEnqueue (Some 9), OpDequeue] = [7, 1]"
    by (simp add: EnqueueAtFront_def Enqueue_def Dequeue_def Let_def h0_def
        RoleVIPCustomer_def RoleRegularCustomer_def)
  show ?thesis
    using front_insert_precedes [of ?pq h0 7 "[9]" "[OpDequeue, OpEnqueue (Some 9), OpDequeue]"] i t f d
    unfolding s
    by (simp add: isVIP_def h0_def RoleVIPCustomer_def RoleRegularCustomer_def)
qed

section \<open>The size counter\<close>

lemma size_after_run:
  "pq_inv pq \<Longrightarrow>
   size_pq (run h pq xs) = size_pq pq + enqueue_successes h pq xs - dequeue_successes h pq xs"
proof (induction xs arbitrary: pq)
  case Nil
  then show ?case by simp
next
  case (Cons x xs)
  have i: "pq_inv (apply_op h pq x)" using Cons.prems by (rule pq_inv_apply_op)
  note IH = Cons.IH [OF i]
  show ?case
  proof (cases x)
    case (OpEnqueue order)
    then show ?thesis using IH by (cases order) (simp_all add: Enqueue_def Let_def)
  next
    case (OpEnqueueAtFront order)
    then show ?thesis using IH by (cases order) (simp_all add: EnqueueAtFront_def Let_def)
  next
    case OpDequeue
    then show ?thesis using IH Cons.prems
      by (cases "vipOrders pq"; cases "regularOrders pq") (simp_all add: Dequeue_def pq_inv_def)
  next
    case OpPeek
    then show ?thesis using IH by simp
  next
    case OpSize
    then show ?thesis using IH by simp
  next
    case OpIsEmpty
    then show ?thesis using IH by simp
  qed
qed

text \<open>
  Claim C6.  Every operation of the queue keeps the counter equal to the number of stored
  orders, and after any sequence of operations on a new queue \<open>Size\<close> is the number of
  successful \<open>Enqueue\<close> and \<open>EnqueueAtFront\<close> calls minus the number of successful
  \<open>Dequeue\<close> calls.
\<close>

theorem size_counter_conservation:
  "(pq_inv pq \<longrightarrow>
      pq_inv (snd (Enqueue h pq order)) \<and>
      pq_inv (snd (EnqueueAtFront h pq order)) \<and>
      pq_inv (snd (Dequeue pq)) \<and>
      pq_inv (apply_op h pq x)) \<and>
   pq_inv (run h NewPriorityQueue xs) \<and>
   Size (run h NewPriorityQueue xs) =
     enqueue_successes h NewPriorityQueue xs - dequeue_successes h NewPriorityQueue xs"
proof -
  have s: "size_pq NewPriorityQueue = 0" by (simp add: NewPriorityQueue_def)
  have r: "pq_inv (run h NewPriorityQueue xs)" using pq_inv_New by (rule pq_inv_run)
  show ?thesis
    using size_after_run [OF pq_inv_New, of h xs] r s
    by (simp add: pq_inv_Enqueue pq_inv_EnqueueAtFront pq_inv_Dequeue pq_inv_apply_op Size_def)
qed

theorem size_counter_conservation_witness:
  "pq_inv \<lparr>vipOrders = [2], regularOrders = [1], size_pq = 2\<rparr> \<and>
   pq_inv (snd (Dequeue \<lparr>vipOrders = [2], regularOrders = [1], size_pq = 2\<rparr>)) \<and>
   enqueue_successes h0 NewPriorityQueue
     [OpEnqueue (Some 1), OpEnqueue None, OpDequeue, OpDequeue, OpEnqueueAtFront (Some 2), OpPeek] = 2 \<and>
   dequeue_successes h0 NewPriorityQueue
     [OpEnqueue (Some 1), OpEnqueue None, OpDequeue, OpDequeue, OpEnqueueAtFront (Some 2), OpPeek] = 1 \<and>
   Size (run h0 NewPriorityQueue
     [OpEnqueue (Some 1), OpEnqueue None, OpDequeue, OpDequeue, OpEnqueueAtFront (Some 2), OpPeek]) = 1"
proof -
  have i: "pq_inv \<lparr>vipOrders = [2], regularOrders = [1], size_pq = 2\<rparr>"
    by (simp add: pq_inv_def)
  have e: "enqueue_successes h0 NewPriorityQueue
     [OpEnqueue (Some 1), OpEnqueue None, OpDequeue, OpDequeue, OpEnqueueAtFront (Some 2), OpPeek] = 2"
    by (simp add: NewPriorityQueue_def Enqueue_def EnqueueAtFront_def Dequeue_def Let_def
        h0_def RoleVIPCustomer_def RoleRegularCustomer_def)
  have d: "dequeue_successes h0 NewPriorityQueue
     [OpEnqueue (Some 1), OpEnqueue None, OpDequeue, OpDequeue, OpEnqueueAtFront (Some 2), OpPeek] = 1"
    by (simp add: NewPriorityQueue_def Enqueue_def EnqueueAtFront_def Dequeue_def Let_def
        h0_def RoleVIPCustomer_def RoleRegularCustomer_def)
  show ?thesis
    using size_counter_conservation [of "\<lparr>vipOrders = [2], regularOrders = [1], size_pq = 2\<rparr>"
        h0 None "OpPeek"
        "[OpEnqueue (Some 1), OpEnqueue None, OpDequeue, OpDequeue, OpEnqueueAtFront (Some 2), OpPeek]"] i
    unfolding e d by simp
qed

section \<open>Errors of the queue\<close>

text \<open>
  Claim C8.  \<open>Enqueue\<close> and \<open>EnqueueAtFront\<close> answer a nil order with \<open>ErrNilOrder\<close> and
  leave the queue as it was.  In a consistent queue, \<open>Dequeue\<close> and \<open>Peek\<close> fail with
  \<open>ErrEmptyQueue\<close> exactly when both slices are empty, and then return no order and
  change nothing.
\<close>

theorem queue_error_cases:
  "Enqueue h pq None = (Some ErrNilOrder, pq) \<and>
   EnqueueAtFront h pq None = (Some ErrNilOrder, pq) \<and>
   (pq_inv pq \<longrightarrow>
      (snd (fst (Dequeue pq)) = Some ErrEmptyQueue) = (vipOrders pq = [] \<and> regularOrders pq = []) \<and>
      (snd (Peek pq) = Some ErrEmptyQueue) = (vipOrders pq = [] \<and> regularOrders pq = []) \<and>
      (vipOrders pq = [] \<and> regularOrders pq = [] \<longrightarrow>
         Dequeue pq = ((None, Some ErrEmptyQueue), pq) \<and> Peek pq = (None, Some ErrEmptyQueue)))"
proof -
  have d: "(snd (fst (Dequeue pq)) = Some ErrEmptyQueue) = (vipOrders pq = [] \<and> regularOrders pq = [])"
    if "pq_inv pq"
    using that by (cases "vipOrders pq"; cases "regularOrders pq") (simp_all add: pq_inv_def Dequeue_def)
  have p: "(snd (Peek pq) = Some ErrEmptyQueue) = (vipOrders pq = [] \<and> regularOrders pq = [])"
    if "pq_inv pq"
    using that by (cases "vipOrders pq"; cases "regularOrders pq") (simp_all add: pq_inv_def Peek_def)
  show ?thesis using d p Dequeue_empty [of pq] Peek_empty [of pq]
    by (simp add: Enqueue_def EnqueueAtFront_def)
qed

theorem queue_error_cases_witness:
  "pq_inv NewPriorityQueue \<and>
   Dequeue NewPriorityQueue = ((None, Some ErrEmptyQueue), NewPriorityQueue) \<and>
   Peek NewPriorityQueue = (None, Some ErrEmptyQueue) \<and>
   pq_inv \<lparr>vipOrders = [], regularOrders = [1], size_pq = 1\<rparr> \<and>
   snd (fst (Dequeue \<lparr>vipOrders = [], regularOrders = [1], size_pq = 1\<rparr>)) \<noteq> Some ErrEmptyQueue"
proof -
  have i: "pq_inv \<lparr>vipOrders = [], regularOrders = [1], size_pq = 1\<rparr>" by (simp add: pq_inv_def)
  have e: "vipOrders NewPriorityQueue = [] \<and> regularOrders NewPriorityQueue = []"
    by (simp add: NewPriorityQueue_def)
  show ?thesis
    using queue_error_cases [of h0 NewPriorityQueue] pq_inv_New e i
      queue_error_cases [of h0 "\<lparr>vipOrders = [], regularOrders = [1], size_pq = 1\<rparr>"]
    by simp
qed

text \<open>
  Claim C9.  A non-nil order is classified by its \<open>CustomerRole\<close> alone: two stores that
  agree on the role of the order give the same result, whatever its other fields are, so
  an order in any status is accepted.  The order goes to the VIP slice when the role is
  \<open>RoleVIPCustomer\<close> and to the regular slice otherwise, the empty role included.
\<close>

theorem tier_classification_by_role:
  "(CustomerRole (h p) = CustomerRole (h' p) \<longrightarrow>
      Enqueue h pq (Some p) = Enqueue h' pq (Some p) \<and>
      EnqueueAtFront h pq (Some p) = EnqueueAtFront h' pq (Some p)) \<and>
   (CustomerRole (h p) = RoleVIPCustomer \<longrightarrow>
      Enqueue h pq (Some p) =
        (None, pq\<lparr>vipOrders := vipOrders pq @ [p], size_pq := size_pq pq + 1\<rparr>) \<and>
      EnqueueAtFront h pq (Some p) =
        (None, pq\<lparr>vipOrders := p # vipOrders pq, size_pq := size_pq pq + 1\<rparr>)) \<and>
   (CustomerRole (h p) \<noteq> RoleVIPCustomer \<longrightarrow>
      Enqueue h pq (Some p) =
        (None, pq\<lparr>regularOrders := regularOrders pq @ [p], size_pq := size_pq pq + 1\<rparr>) \<and>
      EnqueueAtFront h pq (Some p) =
        (None, pq\<lparr>regularOrders := p # regularOrders pq, size_pq := size_pq pq + 1\<rparr>))"
  by (simp add: Enqueue_def EnqueueAtFront_def Let_def)

theorem tier_classification_by_role_witness:
  "CustomerRole (h0 2) = RoleVIPCustomer \<and>
   Enqueue h0 NewPriorityQueue (Some 2) = (None, \<lparr>vipOrders = [2], regularOrders = [], size_pq = 1\<rparr>) \<and>
   CustomerRole (h0 3) \<noteq> RoleVIPCustomer \<and>
   Enqueue h0 NewPriorityQueue (Some 3) = (None, \<lparr>vipOrders = [], regularOrders = [3], size_pq = 1\<rparr>) \<and>
   CustomerRole ((h0(3 := (h0 3)\<lparr>Status := OrderStatusComplete, CustomerRole := []\<rparr>)) 3) \<noteq>
     RoleVIPCustomer \<and>
   Enqueue (h0(3 := (h0 3)\<lparr>Status := OrderStatusComplete, CustomerRole := []\<rparr>))
       NewPriorityQueue (Some 3) =
     (None, \<lparr>vipOrders = [], regularOrders = [3], size_pq = 1\<rparr>) \<and>
   CustomerRole (h0 2) =
     CustomerRole ((h0(2 := (h0 2)\<lparr>Status := OrderStatusServing, AssignedCookUser := Some 10\<rparr>)) 2) \<and>
   EnqueueAtFront (h0(2 := (h0 2)\<lparr>Status := OrderStatusServing, AssignedCookUser := Some 10\<rparr>))
       NewPriorityQueue (Some 2) =
     (None, \<lparr>vipOrders = [2], regularOrders = [], size_pq = 1\<rparr>)"
proof -
  let ?done = "h0(3 := (h0 3)\<lparr>Status := OrderStatusComplete, CustomerRole := []\<rparr>)"
  let ?busy = "h0(2 := (h0 2)\<lparr>Status := OrderStatusServing, AssignedCookUser := Some 10\<rparr>)"
  have v: "CustomerRole (h0 2) = RoleVIPCustomer" by (simp add: h0_def)
  have r: "CustomerRole (h0 3) \<noteq> RoleVIPCustomer"
    by (simp add: h0_def RoleVIPCustomer_def RoleRegularCustomer_def)
  have e: "CustomerRole (?done 3) \<noteq> RoleVIPCustomer"
    by (simp add: RoleVIPCustomer_def)
  have s: "CustomerRole (h0 2) = CustomerRole (?busy 2)"
    by simp
  have n: "NewPriorityQueue\<lparr>vipOrders := vipOrders NewPriorityQueue @ [2],
                            size_pq := size_pq NewPriorityQueue + 1\<rparr> =
             \<lparr>vipOrders = [2], regularOrders = [], size_pq = 1\<rparr>"
    "NewPriorityQueue\<lparr>regularOrders := regularOrders NewPriorityQueue @ [3],
                      size_pq := size_pq NewPriorityQueue + 1\<rparr> =
       \<lparr>vipOrders = [], regularOrders = [3], size_pq = 1\<rparr>"
    "NewPriorityQueue\<lparr>vipOrders := 2 # vipOrders NewPriorityQueue,
                      size_pq := size_pq NewPriorityQueue + 1\<rparr> =
       \<lparr>vipOrders = [2], regularOrders = [], size_pq = 1\<rparr>"
    by (simp_all add: NewPriorityQueue_def)
  have 1: "Enqueue h0 NewPriorityQueue (Some 2) =
             (None, \<lparr>vipOrders = [2], regularOrders = [], size_pq = 1\<rparr>)"
    using tier_classification_by_role [of h0 2 h0 NewPriorityQueue] v by (simp only: n simp_thms)
  have 2: "Enqueue h0 NewPriorityQueue (Some 3) =
             (None, \<lparr>vipOrders = [], regularOrders = [3], size_pq = 1\<rparr>)"
    using tier_classification_by_role [of h0 3 h0 NewPriorityQueue] r by (simp only: n simp_thms)
  have 3: "Enqueue ?done NewPriorityQueue (Some 3) =
             (None, \<lparr>vipOrders = [], regularOrders = [3], size_pq = 1\<rparr>)"
    using tier_classification_by_role [of ?done 3 ?done NewPriorityQueue] e
    by (simp only: n simp_thms)
  have "EnqueueAtFront h0 NewPriorityQueue (Some 2) =
          (None, \<lparr>vipOrders = [2], regularOrders = [], size_pq = 1\<rparr>)"
    using tier_classification_by_role [of h0 2 h0 NewPriorityQueue] v by (simp only: n simp_thms)
  moreover have "EnqueueAtFront h0 NewPriorityQueue (Some 2) = EnqueueAtFront ?busy NewPriorityQueue (Some 2)"
    using tier_classification_by_role [of h0 2 ?busy NewPriorityQueue] s by blast
  ultimately have 4: "EnqueueAtFront ?busy NewPriorityQueue (Some 2) =
          (None, \<lparr>vipOrders = [2], regularOrders = [], size_pq = 1\<rparr>)"
    by simp
  show ?thesis using v r e s 1 2 3 4 by blast
qed

text \<open>
  Claim C10.  In a consistent queue \<open>Dequeue\<close> returns an order and no error, or no order and
  \<open>ErrEmptyQueue\<close>, never neither, and the counter stays non-negative.  Without
  consistency both fail: with counter 1 and empty slices \<open>Dequeue\<close> returns neither an order
  nor an error, and a counter of -1 goes to -2.
\<close>

theorem dequeue_never_nil_nil:
  "(pq_inv pq \<longrightarrow>
      ((\<exists>p. fst (Dequeue pq) = (Some p, None)) \<or> fst (Dequeue pq) = (None, Some ErrEmptyQueue)) \<and>
      fst (Dequeue pq) \<noteq> (None, None) \<and>
      0 \<le> size_pq (snd (Dequeue pq))) \<and>
   \<not> pq_inv \<lparr>vipOrders = [], regularOrders = [], size_pq = 1\<rparr> \<and>
   fst (Dequeue \<lparr>vipOrders = [], regularOrders = [], size_pq = 1\<rparr>) = (None, None) \<and>
   \<not> pq_inv \<lparr>vipOrders = [], regularOrders = [], size_pq = - 1\<rparr> \<and>
   size_pq (snd (Dequeue \<lparr>vipOrders = [], regularOrders = [], size_pq = - 1\<rparr>)) = - 2"
proof -
  have a: "((\<exists>p. fst (Dequeue pq) = (Some p, None)) \<or> fst (Dequeue pq) = (None, Some ErrEmptyQueue)) \<and>
      fst (Dequeue pq) \<noteq> (None, None) \<and> 0 \<le> size_pq (snd (Dequeue pq))" if "pq_inv pq"
    using that by (cases "vipOrders pq"; cases "regularOrders pq") (simp_all add: pq_inv_def Dequeue_def)
  show ?thesis using a by (simp add: pq_inv_def Dequeue_def)
qed

theorem dequeue_never_nil_nil_witness:
  "pq_inv \<lparr>vipOrders = [], regularOrders = [1], size_pq = 1\<rparr> \<and>
   fst (Dequeue \<lparr>vipOrders = [], regularOrders = [1], size_pq = 1\<rparr>) = (Some 1, None) \<and>
   size_pq (snd (Dequeue \<lparr>vipOrders = [], regularOrders = [1], size_pq = 1\<rparr>)) = 0"
proof -
  have i: "pq_inv \<lparr>vipOrders = [], regularOrders = [1], size_pq = 1\<rparr>" by (simp add: pq_inv_def)
  show ?thesis
    using dequeue_never_nil_nil [of "\<lparr>vipOrders = [], regularOrders = [1], size_pq = 1\<rparr>"] i
    by (simp add: Dequeue_def)
qed

section \<open>Removing a cook\<close>

lemma repo_ok_lookup:
  assumes "repo_ok h r" and "p \<in> snd ` set (orders r)"
  shows "map_of (orders r) (ID (h p)) = Some p"
proof -
  obtain k where k: "(k, p) \<in> set (orders r)" using assms(2) by auto
  have "ID (h p) = k" using assms(1) k by (auto simp: repo_ok_def list_all_iff)
  moreover have "map_of (orders r) k = Some p"
    using assms(1) k by (simp add: repo_ok_def)
  ultimately show ?thesis by simp
qed

lemma repo_ok_update:
  assumes "repo_ok h r" and "ID v = ID (h p)"
  shows "repo_ok (h(p := v)) r"
  using assms by (auto simp: repo_ok_def list_all_iff)

lemma requeue_step_memory:
  assumes ok: "repo_ok h r" and mem: "p \<in> snd ` set (orders r)" and act: "active h p"
  shows "requeue_orders memory_repository (p # ps) (r, h, q) =
           requeue_orders memory_repository ps
             (r, h(p := requeued h p), snd (EnqueueAtFront (h(p := requeued h p)) q (Some p)))"
proof -
  have l: "map_of (orders r) (ID (h p)) = Some p" using ok mem by (rule repo_ok_lookup)
  have u: "UpdateStatus memory_repository r h (ID (h p)) OrderStatusPending =
             (None, r, h(p := (h p)\<lparr>Status := OrderStatusPending\<rparr>))"
    using l by (simp add: memory_repository_def memory_UpdateStatus_def)
  let ?h1 = "h(p := (h p)\<lparr>Status := OrderStatusPending\<rparr>)"
  have a: "UnassignCook memory_repository r ?h1 (ID (?h1 p)) = (None, r, h(p := requeued h p))"
    using l by (simp add: memory_repository_def memory_UnassignCook_def requeued_def)
  have e: "EnqueueAtFront (h(p := requeued h p)) q (Some p) =
             (None, snd (EnqueueAtFront (h(p := requeued h p)) q (Some p)))"
    by (simp add: EnqueueAtFront_def Let_def)
  have c: "Status (h p) = OrderStatusPending \<or> Status (h p) = OrderStatusServing"
    using act by (simp add: active_def)
  show ?thesis
    apply (subst requeue_orders.simps)
    apply (simp only: c if_True u a prod.case option.case)
    apply (subst e)
    apply (simp only: prod.case option.case)
    done
qed

lemma requeue_skip:
  assumes "\<not> active h p"
  shows "requeue_orders R (p # ps) (r, h, q) = requeue_orders R ps (r, h, q)"
  using assms by (simp add: active_def)

lemma requeue_memory:
  assumes "repo_ok h r" and "distinct ps" and "set ps \<subseteq> snd ` set (orders r)"
  shows "requeue_orders memory_repository ps (r, h, q) =
           (r, (\<lambda>p. if p \<in> set ps \<and> active h p then requeued h p else h p),
            q\<lparr>vipOrders := rev (filter (\<lambda>p. active h p \<and> isVIP h p) ps) @ vipOrders q,
              regularOrders := rev (filter (\<lambda>p. active h p \<and> \<not> isVIP h p) ps) @ regularOrders q,
              size_pq := size_pq q + int (length (filter (active h) ps))\<rparr>)"
  using assms
proof (induction ps arbitrary: h q)
  case Nil
  then show ?case by simp
next
  case (Cons p ps)
  have mem: "p \<in> snd ` set (orders r)" using Cons.prems(3) by simp
  have d: "distinct ps" and np: "p \<notin> set ps" using Cons.prems(2) by simp_all
  have sub: "set ps \<subseteq> snd ` set (orders r)" using Cons.prems(3) by simp
  show ?case
  proof (cases "active h p")
    case False
    have "requeue_orders memory_repository (p # ps) (r, h, q) =
            requeue_orders memory_repository ps (r, h, q)"
      using False by (rule requeue_skip)
    also have "\<dots> = (r, (\<lambda>x. if x \<in> set ps \<and> active h x then requeued h x else h x),
            q\<lparr>vipOrders := rev (filter (\<lambda>p. active h p \<and> isVIP h p) ps) @ vipOrders q,
              regularOrders := rev (filter (\<lambda>p. active h p \<and> \<not> isVIP h p) ps) @ regularOrders q,
              size_pq := size_pq q + int (length (filter (active h) ps))\<rparr>)"
      using Cons.prems(1) d sub by (rule Cons.IH)
    finally show ?thesis using False by (auto intro!: ext)
  next
    case True
    let ?h2 = "h(p := requeued h p)"
    let ?q1 = "snd (EnqueueAtFront ?h2 q (Some p))"
    have ok2: "repo_ok ?h2 r"
      using Cons.prems(1) by (rule repo_ok_update) (simp add: requeued_def)
    have same: "\<And>x. x \<in> set ps \<Longrightarrow> ?h2 x = h x" using np by auto
    have fa: "filter (active ?h2) ps = filter (active h) ps"
      using same by (intro filter_cong) (simp_all add: active_def)
    have fv: "filter (\<lambda>x. active ?h2 x \<and> isVIP ?h2 x) ps = filter (\<lambda>x. active h x \<and> isVIP h x) ps"
      using same by (intro filter_cong) (simp_all add: active_def isVIP_def)
    have fr: "filter (\<lambda>x. active ?h2 x \<and> \<not> isVIP ?h2 x) ps =
              filter (\<lambda>x. active h x \<and> \<not> isVIP h x) ps"
      using same by (intro filter_cong) (simp_all add: active_def isVIP_def)
    have hp: "(\<lambda>x. if x \<in> set ps \<and> active ?h2 x then requeued ?h2 x else ?h2 x) =
              (\<lambda>x. if x \<in> set (p # ps) \<and> active h x then requeued h x else h x)"
      using np True by (auto intro!: ext simp: active_def requeued_def)
    have vip: "isVIP ?h2 p = isVIP h p" by (simp add: isVIP_def requeued_def)
    have "requeue_orders memory_repository (p # ps) (r, h, q) =
            requeue_orders memory_repository ps (r, ?h2, ?q1)"
      using Cons.prems(1) mem True by (rule requeue_step_memory)
    also have "\<dots> = (r, (\<lambda>x. if x \<in> set ps \<and> active ?h2 x then requeued ?h2 x else ?h2 x),
            ?q1\<lparr>vipOrders := rev (filter (\<lambda>p. active ?h2 p \<and> isVIP ?h2 p) ps) @ vipOrders ?q1,
              regularOrders := rev (filter (\<lambda>p. active ?h2 p \<and> \<not> isVIP ?h2 p) ps) @ regularOrders ?q1,
              size_pq := size_pq ?q1 + int (length (filter (active ?h2) ps))\<rparr>)"
      using ok2 d sub by (rule Cons.IH)
    finally show ?thesis
      unfolding hp fa fv fr using True vip
      by (simp add: EnqueueAtFront_def Let_def isVIP_def)
  qed
qed

lemma repo_ok_distinct: "repo_ok h r \<Longrightarrow> distinct (map snd (orders r))"
proof -
  assume ok: "repo_ok h r"
  have "map fst (orders r) = map ((\<lambda>p. ID (h p)) \<circ> snd) (orders r)"
    using ok by (auto simp: repo_ok_def list_all_iff)
  moreover have "distinct (map fst (orders r))" using ok by (simp add: repo_ok_def)
  ultimately have "distinct (map (\<lambda>p. ID (h p)) (map snd (orders r)))"
    by (simp only: map_map)
  then show ?thesis by (rule distinct_map [THEN iffD1, THEN conjunct1])
qed

text \<open>
  With the in-memory repository, removing an active cook succeeds, puts every \<open>PENDING\<close> or
  \<open>SERVING\<close> order of the cook back to \<open>PENDING\<close> with no cook, and inserts these orders
  at the front of their slices one after the other, so that they end up in reverse
  iteration order.
\<close>

lemma RemoveCook_memory:
  assumes ok: "repo_ok (objects s) (orderRepo s)"
    and cook: "userRepo s c = Some cook" "IsCook cook" "\<not> IsDeleted cook"
  shows "RemoveCook memory_repository now s c =
     (None,
      (stopWorker s c)
        \<lparr>objects := (\<lambda>p. if p \<in> set (held_by (objects s) (orderRepo s) c) \<and> active (objects s) p
                          then requeued (objects s) p else objects s p),
         userRepo := (userRepo s)(c \<mapsto> cook\<lparr>DeletedAt := Some now\<rparr>),
         orderRepo := orderRepo s,
         orderQueue := (orderQueue s)
           \<lparr>vipOrders := rev (filter (\<lambda>p. active (objects s) p \<and> isVIP (objects s) p)
                                (held_by (objects s) (orderRepo s) c)) @ vipOrders (orderQueue s),
             regularOrders := rev (filter (\<lambda>p. active (objects s) p \<and> \<not> isVIP (objects s) p)
                                (held_by (objects s) (orderRepo s) c)) @ regularOrders (orderQueue s),
             size_pq := size_pq (orderQueue s) +
                        int (length (filter (active (objects s)) (held_by (objects s) (orderRepo s) c)))\<rparr>\<rparr>)"
proof -
  let ?s1 = "stopWorker s c"
  let ?held = "held_by (objects s) (orderRepo s) c"
  have s1: "objects ?s1 = objects s" "userRepo ?s1 = userRepo s" "orderRepo ?s1 = orderRepo s"
    "orderQueue ?s1 = orderQueue s"
    by (simp_all add: stopWorker_def split: option.splits)
  have g: "GetByCookID memory_repository (orderRepo ?s1) (objects ?s1) c =
             (Inr ?held, orderRepo s, objects s)"
    by (simp add: s1 memory_repository_def memory_GetByCookID_def held_by_def)
  have d: "distinct ?held"
    using repo_ok_distinct [OF ok] by (simp add: held_by_def)
  have sub: "set ?held \<subseteq> snd ` set (orders (orderRepo s))"
    by (auto simp: held_by_def)
  note rq = requeue_memory [OF ok d sub, of "orderQueue s"]
  have sd: "SoftDelete (userRepo s) now c = (None, (userRepo s)(c \<mapsto> cook\<lparr>DeletedAt := Some now\<rparr>))"
    using cook(1) by (simp add: SoftDelete_def)
  have gid: "GetByID (userRepo s) c = Inr cook" using cook(1) by (simp add: GetByID_def)
  show ?thesis
    unfolding RemoveCook_def gid Let_def g
    using cook(2,3)
    by (simp only: sum.case if_False if_True not_not prod.case s1 rq sd option.case simp_thms)
qed

lemma pq_inv_RemoveCook:
  assumes "pq_inv q"
  shows "pq_inv (q\<lparr>vipOrders := rev (filter (\<lambda>p. active h p \<and> isVIP h p) ps) @ vipOrders q,
              regularOrders := rev (filter (\<lambda>p. active h p \<and> \<not> isVIP h p) ps) @ regularOrders q,
              size_pq := size_pq q + int (length (filter (active h) ps))\<rparr>)"
proof -
  have "length (filter (isVIP h) (filter (active h) ps)) +
        length (filter (\<lambda>p. \<not> isVIP h p) (filter (active h) ps)) = length (filter (active h) ps)"
    by (rule sum_length_filter_compl)
  then have "int (length (filter (active h) ps)) =
             int (length (filter (\<lambda>p. active h p \<and> isVIP h p) ps)) +
             int (length (filter (\<lambda>p. active h p \<and> \<not> isVIP h p) ps))"
    by (simp only: filter_filter flip: of_nat_add)
  then show ?thesis using assms by (simp add: pq_inv_def)
qed

lemmas concrete_defs =
  kitchen_def two_regular_def cook10_def cook11_def customer20_def h0_def GetByID_def IsCook_def IsDeleted_def
  RoleCook_def RoleVIPCustomer_def RoleRegularCustomer_def OrderStatusPending_def
  OrderStatusServing_def Dequeue_def EnqueueAtFront_def memory_repository_def
  memory_AssignCook_def memory_UpdateStatus_def memory_UnassignCook_def memory_GetByCookID_def
  NewPriorityQueue_def







lemma requeue_step_status_fails:
  assumes "active h X"
    and "UpdateStatus R r h (ID (h X)) OrderStatusPending = (Some e, r2, h2)"
  shows "requeue_orders R (X # ps) (r, h, q) = requeue_orders R ps (r2, h2, q)"
  using assms by (simp add: active_def)

lemma requeue_step_unassign_fails:
  assumes "active h X"
    and "UpdateStatus R r h (ID (h X)) OrderStatusPending = (None, r2, h2)"
    and "UnassignCook R r2 h2 (ID (h2 X)) = (Some e, r3, h3)"
  shows "requeue_orders R (X # ps) (r, h, q) = requeue_orders R ps (r3, h3, q)"
  using assms by (simp add: active_def)










section \<open>Accepting an order\<close>

lemma AcceptOrder_active:
  assumes "userRepo s W = Some cook" "IsCook cook" "\<not> IsDeleted cook"
  shows "AcceptOrder R s W =
     (case Dequeue (orderQueue s) of
               ((order, Some err), q1) \<Rightarrow>
                 if err = ErrEmptyQueue
                 then (Returns (None, Some NoOrdersInQueue), s\<lparr>orderQueue := q1\<rparr>)
                 else (Returns (None, Some (FailedToDequeueOrder err)), s\<lparr>orderQueue := q1\<rparr>)
             | ((None, None), q1) \<Rightarrow> (NilDereference, s\<lparr>orderQueue := q1\<rparr>)
             | ((Some order, None), q1) \<Rightarrow>
                 (case AssignCook R (orderRepo s) (objects s) (ID (objects s order)) W of
                    (Some err, r1, h1) \<Rightarrow>
                      (Returns (None, Some (FailedToAssignCook err)),
                       s\<lparr>objects := h1, orderRepo := r1,
                         orderQueue := snd (EnqueueAtFront h1 q1 (Some order))\<rparr>)
                  | (None, r1, h1) \<Rightarrow>
                      (case UpdateStatus R r1 h1 (ID (h1 order)) OrderStatusServing of
                         (Some err, r2, h2) \<Rightarrow>
                           (Returns (None, Some (FailedToUpdateOrderStatus err)),
                            s\<lparr>objects := h2, orderRepo := r2, orderQueue := q1\<rparr>)
                       | (None, r2, h2) \<Rightarrow>
                           (Returns (Some order, None),
                            s\<lparr>objects := h2, orderRepo := r2, orderQueue := q1\<rparr>))))"
  using assms by (simp add: AcceptOrder_def GetByID_def)

lemma AcceptOrder_assign_failure:
  assumes "userRepo s W = Some cook" "IsCook cook" "\<not> IsDeleted cook"
    and "Dequeue (orderQueue s) = ((Some X, None), q1)"
    and "AssignCook R (orderRepo s) (objects s) (ID (objects s X)) W = (Some e, r1, h1)"
  shows "AcceptOrder R s W =
           (Returns (None, Some (FailedToAssignCook e)),
            s\<lparr>objects := h1, orderRepo := r1, orderQueue := snd (EnqueueAtFront h1 q1 (Some X))\<rparr>)"
  using assms(4,5) by (simp add: AcceptOrder_active [OF assms(1-3)])

lemma AcceptOrder_status_failure:
  assumes "userRepo s W = Some cook" "IsCook cook" "\<not> IsDeleted cook"
    and "Dequeue (orderQueue s) = ((Some X, None), q1)"
    and "AssignCook R (orderRepo s) (objects s) (ID (objects s X)) W = (None, r1, h1)"
    and "UpdateStatus R r1 h1 (ID (h1 X)) OrderStatusServing = (Some e, r2, h2)"
  shows "AcceptOrder R s W =
           (Returns (None, Some (FailedToUpdateOrderStatus e)),
            s\<lparr>objects := h2, orderRepo := r2, orderQueue := q1\<rparr>)"
  using assms(4-6) by (simp add: AcceptOrder_active [OF assms(1-3)])

lemma front_insert_undoes_Dequeue:
  assumes "pq_inv pq" "tier_ok h pq" "Dequeue pq = ((Some X, None), q1)"
  shows "snd (EnqueueAtFront h q1 (Some X)) = pq"
proof (cases "vipOrders pq")
  case (Cons p rest)
  have "Dequeue pq = ((Some p, None), pq\<lparr>vipOrders := rest, size_pq := size_pq pq - 1\<rparr>)"
    using assms(1) Cons by (rule Dequeue_vip)
  then have "X = p" "q1 = pq\<lparr>vipOrders := rest, size_pq := size_pq pq - 1\<rparr>"
    using assms(3) by simp_all
  moreover have "CustomerRole (h p) = RoleVIPCustomer"
    using assms(2) Cons by (simp add: tier_ok_def)
  ultimately show ?thesis using Cons by (simp add: EnqueueAtFront_def Let_def)
next
  case Nil
  show ?thesis
  proof (cases "regularOrders pq")
    case (Cons p rest)
    have "Dequeue pq = ((Some p, None), pq\<lparr>regularOrders := rest, size_pq := size_pq pq - 1\<rparr>)"
      using assms(1) Nil Cons by (rule Dequeue_regular)
    then have "X = p" "q1 = pq\<lparr>regularOrders := rest, size_pq := size_pq pq - 1\<rparr>"
      using assms(3) by simp_all
    moreover have "CustomerRole (h p) \<noteq> RoleVIPCustomer"
      using assms(2) Cons by (simp add: tier_ok_def)
    ultimately show ?thesis using Cons by (simp add: EnqueueAtFront_def Let_def)
  next
    case Nil': Nil
    have "Dequeue pq = ((None, Some ErrEmptyQueue), pq)"
      using assms(1) Nil Nil' by (rule Dequeue_empty)
    then show ?thesis using assms(3) by simp
  qed
qed

lemma Dequeue_head:
  assumes "pq_inv pq" and "vipOrders pq @ regularOrders pq \<noteq> []"
  shows "fst (Dequeue pq) = (Some (hd (vipOrders pq @ regularOrders pq)), None) \<and>
         vipOrders pq @ regularOrders pq =
           hd (vipOrders pq @ regularOrders pq) #
           (vipOrders (snd (Dequeue pq)) @ regularOrders (snd (Dequeue pq)))"
proof (cases "vipOrders pq")
  case (Cons p rest)
  then show ?thesis using Dequeue_vip [OF assms(1) Cons] by simp
next
  case Nil
  then obtain p rest where r: "regularOrders pq = p # rest"
    using assms(2) by (auto simp: neq_Nil_conv)
  show ?thesis using Dequeue_regular [OF assms(1) Nil r] Nil r by simp
qed

lemma AcceptOrder_memory_success:
  assumes u: "userRepo s W = Some cook" "IsCook cook" "\<not> IsDeleted cook"
    and i: "pq_inv (orderQueue s)"
    and ne: "vipOrders (orderQueue s) @ regularOrders (orderQueue s) \<noteq> []"
    and x: "X = hd (vipOrders (orderQueue s) @ regularOrders (orderQueue s))"
    and l: "map_of (orders (orderRepo s)) (ID (objects s X)) = Some X"
  shows "AcceptOrder memory_repository s W =
           (Returns (Some X, None),
            s\<lparr>objects := (objects s)
                 (X := (objects s X)\<lparr>AssignedCookUser := Some W, Status := OrderStatusServing\<rparr>),
              orderRepo := orderRepo s, orderQueue := snd (Dequeue (orderQueue s))\<rparr>)"
proof -
  have "fst (Dequeue (orderQueue s)) = (Some X, None)"
    using Dequeue_head [OF i ne] x by simp
  then have dq: "Dequeue (orderQueue s) = ((Some X, None), snd (Dequeue (orderQueue s)))"
    by (metis prod.collapse)
  show ?thesis
    apply (subst AcceptOrder_active [OF u])
    apply (subst dq)
    using l
    apply (simp add: memory_repository_def memory_AssignCook_def memory_UpdateStatus_def)
    done
qed

text \<open>
  For every repository \<open>AcceptOrder\<close> fails with "cook not found" when no user has the given
  id, with "user is not a cook" for a user of another role and with "cook is deleted" for
  a removed cook, each time leaving the whole state, the queue included, as it was, and
  with "no orders in queue" for an active cook and an empty queue.  With the in-memory
  repository, for an active cook and a non-empty queue whose head \<open>X\<close> is the repository's
  order of that id (as it is in every well-formed state, \<open>kitchen_ok_lookup\<close>), it returns
  \<open>X\<close>, which is then in status \<open>SERVING\<close> and assigned to the cook.
\<close>

lemma AcceptOrder_contract:
  "(userRepo s W = None \<longrightarrow>
      AcceptOrder R s W =
        (Returns (None, Some (CookNotFound (UserNotFound W))), s)) \<and>
   (userRepo s W = Some cook \<and> \<not> IsCook cook \<longrightarrow>
      AcceptOrder R s W = (Returns (None, Some UserIsNotACook), s)) \<and>
   (userRepo s W = Some cook \<and> IsCook cook \<and> IsDeleted cook \<longrightarrow>
      AcceptOrder R s W = (Returns (None, Some CookIsDeleted), s)) \<and>
   (userRepo s W = Some cook \<and> IsCook cook \<and> \<not> IsDeleted cook \<and> pq_inv (orderQueue s) \<and>
    vipOrders (orderQueue s) @ regularOrders (orderQueue s) = [] \<longrightarrow>
      AcceptOrder R s W = (Returns (None, Some NoOrdersInQueue), s)) \<and>
   (userRepo m W = Some cook \<and> IsCook cook \<and> \<not> IsDeleted cook \<and> pq_inv (orderQueue m) \<and>
    vipOrders (orderQueue m) @ regularOrders (orderQueue m) \<noteq> [] \<and>
    X = hd (vipOrders (orderQueue m) @ regularOrders (orderQueue m)) \<and>
    map_of (orders (orderRepo m)) (ID (objects m X)) = Some X \<longrightarrow>
      fst (AcceptOrder memory_repository m W) = Returns (Some X, None) \<and>
      Status (objects (snd (AcceptOrder memory_repository m W)) X) = OrderStatusServing \<and>
      AssignedCookUser (objects (snd (AcceptOrder memory_repository m W)) X) = Some W \<and>
      orderQueue (snd (AcceptOrder memory_repository m W)) = snd (Dequeue (orderQueue m)))"
proof -
  have a: "AcceptOrder R s W =
        (Returns (None, Some (CookNotFound (UserNotFound W))), s)" if "userRepo s W = None"
    using that by (simp add: AcceptOrder_def GetByID_def)
  have b: "AcceptOrder R s W = (Returns (None, Some UserIsNotACook), s)"
    if "userRepo s W = Some cook" "\<not> IsCook cook"
    using that by (simp add: AcceptOrder_def GetByID_def)
  have c: "AcceptOrder R s W = (Returns (None, Some CookIsDeleted), s)"
    if "userRepo s W = Some cook" "IsCook cook" "IsDeleted cook"
    using that by (simp add: AcceptOrder_def GetByID_def)
  have d: "AcceptOrder R s W = (Returns (None, Some NoOrdersInQueue), s)"
    if u: "userRepo s W = Some cook" "IsCook cook" "\<not> IsDeleted cook"
      and i: "pq_inv (orderQueue s)"
      and e: "vipOrders (orderQueue s) @ regularOrders (orderQueue s) = []"
  proof -
    have "Dequeue (orderQueue s) = ((None, Some ErrEmptyQueue), orderQueue s)"
      using i e by (intro Dequeue_empty) simp_all
    then show ?thesis by (simp add: AcceptOrder_active [OF u])
  qed
  have e: "fst (AcceptOrder memory_repository m W) = Returns (Some X, None) \<and>
      Status (objects (snd (AcceptOrder memory_repository m W)) X) = OrderStatusServing \<and>
      AssignedCookUser (objects (snd (AcceptOrder memory_repository m W)) X) = Some W \<and>
      orderQueue (snd (AcceptOrder memory_repository m W)) = snd (Dequeue (orderQueue m))"
    if u: "userRepo m W = Some cook" "IsCook cook" "\<not> IsDeleted cook"
      and i: "pq_inv (orderQueue m)"
      and ne: "vipOrders (orderQueue m) @ regularOrders (orderQueue m) \<noteq> []"
      and x: "X = hd (vipOrders (orderQueue m) @ regularOrders (orderQueue m))"
      and l: "map_of (orders (orderRepo m)) (ID (objects m X)) = Some X"
    by (simp add: AcceptOrder_memory_success [OF u i ne x l])
  show ?thesis using a b c d e by blast
qed

text \<open>
  Claim C7.  The error clauses hold (\<open>AcceptOrder_contract\<close>); the success clause does not
  hold for every repository.  \<open>AcceptOrder\<close> returns the pointer it took out of the queue
  and writes neither the status nor the cook into the object: the returned order is in
  status \<open>SERVING\<close> and assigned to the cook only if the repository updated that very
  object, as the in-memory one does.  With a repository that records the assignment and
  the status in its own rows, \<open>AcceptOrder\<close> succeeds and returns order 3 still \<open>PENDING\<close>
  and with no assigned cook.
\<close>

theorem AcceptOrder_returns_untouched_order:
  "userRepo (kitchen two_regular) 10 = Some cook10 \<and> IsCook cook10 \<and> \<not> IsDeleted cook10 \<and>
   fst (Dequeue (orderQueue (kitchen two_regular))) = (Some 3, None) \<and>
   AssignCook rows_repository (orderRepo (kitchen two_regular)) (objects (kitchen two_regular))
     (ID (objects (kitchen two_regular) 3)) 10 =
     (None, orderRepo (kitchen two_regular), objects (kitchen two_regular)) \<and>
   UpdateStatus rows_repository (orderRepo (kitchen two_regular)) (objects (kitchen two_regular))
     (ID (objects (kitchen two_regular) 3)) OrderStatusServing =
     (None, orderRepo (kitchen two_regular), objects (kitchen two_regular)) \<and>
   fst (AcceptOrder rows_repository (kitchen two_regular) 10) = Returns (Some 3, None) \<and>
   orderQueue (snd (AcceptOrder rows_repository (kitchen two_regular) 10)) =
     \<lparr>vipOrders = [], regularOrders = [5], size_pq = 1\<rparr> \<and>
   Status (objects (snd (AcceptOrder rows_repository (kitchen two_regular) 10)) 3) =
     OrderStatusPending \<and>
   Status (objects (snd (AcceptOrder rows_repository (kitchen two_regular) 10)) 3) \<noteq>
     OrderStatusServing \<and>
   AssignedCookUser (objects (snd (AcceptOrder rows_repository (kitchen two_regular) 10)) 3) = None"
  by (simp add: AcceptOrder_def rows_repository_def rows_AssignCook_def rows_UpdateStatus_def
      concrete_defs)

text \<open>
  Claim C2.  When \<open>AssignCook\<close> fails, \<open>AcceptOrder\<close> puts the order back at the front of its
  tier and returns the error (\<open>AcceptOrder_assign_failure\<close>; by
  \<open>front_insert_undoes_Dequeue\<close> the queue is then as before the call).  When
  \<open>AssignCook\<close> succeeds and \<open>UpdateStatus\<close> fails, the error is returned but the order is not
  put back (\<open>AcceptOrder_status_failure\<close>): below, order 3 is taken out of the queue, the
  status update fails, and the order is left out of the queue, still \<open>PENDING\<close> and
  assigned to cook 10.
\<close>

theorem AcceptOrder_status_failure_loses_order:
  "fst (Dequeue (orderQueue (kitchen two_regular))) = (Some 3, None) \<and>
   AssignCook status_failing_repository (orderRepo (kitchen two_regular)) (objects (kitchen two_regular))
     (ID (objects (kitchen two_regular) 3)) 10 =
     (None, orderRepo (kitchen two_regular),
      (objects (kitchen two_regular))(3 := (h0 3)\<lparr>AssignedCookUser := Some 10\<rparr>)) \<and>
   fst (AcceptOrder status_failing_repository (kitchen two_regular) 10) =
     Returns (None, Some (FailedToUpdateOrderStatus (StoreFailure ''failed to update status''))) \<and>
   orderQueue (snd (AcceptOrder status_failing_repository (kitchen two_regular) 10)) =
     \<lparr>vipOrders = [], regularOrders = [5], size_pq = 1\<rparr> \<and>
   Status (objects (snd (AcceptOrder status_failing_repository (kitchen two_regular) 10)) 3) =
     OrderStatusPending \<and>
   AssignedCookUser (objects (snd (AcceptOrder status_failing_repository (kitchen two_regular) 10)) 3) =
     Some 10"
  by (simp add: AcceptOrder_def status_failing_repository_def failing_UpdateStatus_def concrete_defs)

section \<open>Well-formed states of the service\<close>

text \<open>
  The head of the queue of a well-formed state is found in the repository under its id,
  and accepting an order or removing a cook leads from a well-formed state to a
  well-formed state.
\<close>

lemma repo_ok_cong:
  assumes "repo_ok h r" and "\<And>p. ID (h' p) = ID (h p)"
  shows "repo_ok h' r"
  using assms by (simp add: repo_ok_def list_all_iff)

lemma tier_ok_cong:
  assumes "tier_ok h pq" and "\<And>p. CustomerRole (h' p) = CustomerRole (h p)"
  shows "tier_ok h' pq"
  using assms by (simp add: tier_ok_def)

lemma kitchen_ok_lookup:
  assumes "kitchen_ok s" and "vipOrders (orderQueue s) @ regularOrders (orderQueue s) \<noteq> []"
  shows "map_of (orders (orderRepo s))
           (ID (objects s (hd (vipOrders (orderQueue s) @ regularOrders (orderQueue s))))) =
         Some (hd (vipOrders (orderQueue s) @ regularOrders (orderQueue s)))"
proof -
  let ?X = "hd (vipOrders (orderQueue s) @ regularOrders (orderQueue s))"
  have "?X \<in> set (vipOrders (orderQueue s) @ regularOrders (orderQueue s))"
    using assms(2) by (rule hd_in_set)
  then have "?X \<in> snd ` set (orders (orderRepo s))"
    using assms(1) unfolding kitchen_ok_def list_all_iff by blast
  then show ?thesis using assms(1) by (intro repo_ok_lookup) (simp_all add: kitchen_ok_def)
qed

lemma kitchen_ok_AcceptOrder:
  assumes ok: "kitchen_ok s"
  shows "kitchen_ok (snd (AcceptOrder memory_repository s W))"
proof (cases "userRepo s W")
  case None
  then show ?thesis using ok by (simp add: AcceptOrder_def GetByID_def)
next
  case (Some cook)
  show ?thesis
  proof (cases "IsCook cook \<and> \<not> IsDeleted cook")
    case False
    then show ?thesis using ok Some by (auto simp: AcceptOrder_def GetByID_def)
  next
    case True
    then have u: "userRepo s W = Some cook" "IsCook cook" "\<not> IsDeleted cook"
      using Some by simp_all
    have i: "pq_inv (orderQueue s)" using ok by (simp add: kitchen_ok_def)
    show ?thesis
    proof (cases "vipOrders (orderQueue s) @ regularOrders (orderQueue s) = []")
      case True
      then have "Dequeue (orderQueue s) = ((None, Some ErrEmptyQueue), orderQueue s)"
        using i by (intro Dequeue_empty) simp_all
      then show ?thesis using ok by (simp add: AcceptOrder_active [OF u])
    next
      case False
      let ?X = "hd (vipOrders (orderQueue s) @ regularOrders (orderQueue s))"
      let ?h = "(objects s)
                 (?X := (objects s ?X)\<lparr>AssignedCookUser := Some W, Status := OrderStatusServing\<rparr>)"
      let ?q = "snd (Dequeue (orderQueue s))"
      note eq = AcceptOrder_memory_success [OF u i False refl kitchen_ok_lookup [OF ok False]]
      have rk: "repo_ok (objects s) (orderRepo s)" using ok by (simp add: kitchen_ok_def)
      have r: "repo_ok ?h (orderRepo s)"
        using rk by (rule repo_ok_cong) simp
      have tk: "tier_ok (objects s) (orderQueue s)" using ok by (simp add: kitchen_ok_def)
      have t0: "tier_ok (objects s) ?q"
        using tk by (rule tier_ok_Dequeue)
      have t: "tier_ok ?h ?q"
        using t0 by (rule tier_ok_cong) simp
      have "set (vipOrders ?q @ regularOrders ?q) \<subseteq>
            set (vipOrders (orderQueue s) @ regularOrders (orderQueue s))"
        using Dequeue_head [OF i False] by (metis set_subset_Cons)
      then have m: "list_all (\<lambda>p. p \<in> snd ` set (orders (orderRepo s)))
                      (vipOrders ?q @ regularOrders ?q)"
        using ok unfolding kitchen_ok_def list_all_iff by blast
      show ?thesis using r t m pq_inv_Dequeue [OF i] by (simp add: eq kitchen_ok_def)
    qed
  qed
qed

lemma kitchen_ok_RemoveCook:
  assumes ok: "kitchen_ok s"
  shows "kitchen_ok (snd (RemoveCook memory_repository now s W))"
proof (cases "userRepo s W")
  case None
  then show ?thesis using ok by (simp add: RemoveCook_def GetByID_def)
next
  case (Some cook)
  show ?thesis
  proof (cases "IsCook cook \<and> \<not> IsDeleted cook")
    case False
    then show ?thesis using ok Some by (auto simp: RemoveCook_def GetByID_def)
  next
    case True
    then have u: "userRepo s W = Some cook" "IsCook cook" "\<not> IsDeleted cook"
      using Some by simp_all
    have rk: "repo_ok (objects s) (orderRepo s)" using ok by (simp add: kitchen_ok_def)
    have i: "pq_inv (orderQueue s)" using ok by (simp add: kitchen_ok_def)
    let ?held = "held_by (objects s) (orderRepo s) W"
    let ?h = "\<lambda>p. if p \<in> set ?held \<and> active (objects s) p
                   then requeued (objects s) p else objects s p"
    let ?q = "(orderQueue s)
           \<lparr>vipOrders := rev (filter (\<lambda>p. active (objects s) p \<and> isVIP (objects s) p) ?held) @
                          vipOrders (orderQueue s),
             regularOrders := rev (filter (\<lambda>p. active (objects s) p \<and> \<not> isVIP (objects s) p) ?held) @
                          regularOrders (orderQueue s),
             size_pq := size_pq (orderQueue s) + int (length (filter (active (objects s)) ?held))\<rparr>"
    note eq = RemoveCook_memory [OF rk u, of now]
    have r: "repo_ok ?h (orderRepo s)"
      using rk by (rule repo_ok_cong) (simp add: requeued_def)
    have t0: "tier_ok (objects s) ?q"
      using ok by (auto simp: kitchen_ok_def tier_ok_def isVIP_def list_all_iff)
    have t: "tier_ok ?h ?q"
      using t0 by (rule tier_ok_cong) (simp add: requeued_def)
    have hs: "set ?held \<subseteq> snd ` set (orders (orderRepo s))" by (auto simp: held_by_def)
    have os: "set (vipOrders (orderQueue s) @ regularOrders (orderQueue s)) \<subseteq>
              snd ` set (orders (orderRepo s))"
      using ok unfolding kitchen_ok_def list_all_iff by blast
    have "set (vipOrders ?q @ regularOrders ?q) \<subseteq>
          set ?held \<union> set (vipOrders (orderQueue s) @ regularOrders (orderQueue s))"
      by auto
    then have "set (vipOrders ?q @ regularOrders ?q) \<subseteq> snd ` set (orders (orderRepo s))"
      using hs os by blast
    then have m: "list_all (\<lambda>p. p \<in> snd ` set (orders (orderRepo s)))
                    (vipOrders ?q @ regularOrders ?q)"
      unfolding list_all_iff by blast
    show ?thesis using r t m pq_inv_RemoveCook [OF i] by (simp add: eq kitchen_ok_def)
  qed
qed

end
